theory Spec2Isabelle
  imports Complex_Main "HOL-Library.Sublist" "HOL-Library.Multiset"
begin

section \<open>Python values shared by the notebooks\<close>

text \<open>
  The notebooks are Python. Exceptions become values of \<open>error\<close>; a function that may
  raise returns \<open>error + 'a\<close> with \<open>Inl\<close> for the exception. Strings are byte strings
  (ASCII text); a Python float that is a number is read as the rational it denotes, so
  rounding to an IEEE double is not part of the model.
\<close>

datatype error =
    ValueError
  | TypeError
  | IndexError
  | KeyError
  | UnboundLocalError string

text \<open>
  \<open>str.replace(old, new)\<close>: the occurrences of \<open>old\<close> are found from left to right and do
  not overlap; the text put in is not searched again. The counter of \<open>replace_from\<close> is the
  number of characters of the current occurrence still to be skipped. With an empty
  \<open>old\<close> Python puts \<open>new\<close> before every character and at the end.
\<close>

fun replace_from :: "string \<Rightarrow> string \<Rightarrow> nat \<Rightarrow> string \<Rightarrow> string" where
  "replace_from old new k [] = []"
| "replace_from old new (Suc k) (c # cs) = replace_from old new k cs"
| "replace_from old new 0 (c # cs) =
     (if prefix old (c # cs) then new @ replace_from old new (length old - 1) cs
      else c # replace_from old new 0 cs)"

definition replace :: "string \<Rightarrow> string \<Rightarrow> string \<Rightarrow> string" where
  "replace s old new =
     (if old = [] then new @ concat (map (\<lambda>c. c # new) s) else replace_from old new 0 s)"

text \<open>
  \<open>s.split(sep)[0]\<close> for a non-empty \<open>sep\<close>: the text before the first occurrence of
  \<open>sep\<close>, or all of \<open>s\<close> when there is none.
\<close>

fun split_first :: "string \<Rightarrow> string \<Rightarrow> string" where
  "split_first sep [] = []"
| "split_first sep (c # cs) = (if prefix sep (c # cs) then [] else c # split_first sep cs)"

text \<open>\<open>str(j)\<close> of a non-negative integer, as the f-string \<open>f"doc_{j}"\<close> formats it.\<close>

definition digit_char :: "nat \<Rightarrow> char" where
  "digit_char d = ''0123456789'' ! d"

fun str_nat :: "nat \<Rightarrow> string" where
  "str_nat n = (if n < 10 then [digit_char n] else str_nat (n div 10) @ [digit_char (n mod 10)])"

declare str_nat.simps [simp del]

text \<open>
  The \<open>Item\<close> objects unpickled by the notebooks. The class itself (\<open>utils/items.py\<close>) is not
  part of the notebooks; they read the attributes \<open>prompt\<close>, \<open>price\<close> and \<open>category\<close>.
\<close>

record item =
  prompt :: string
  price :: rat
  category :: string

section \<open>Ensemble features (notebook "Advanced Price Estimation with RAG and Ensemble Learning")\<close>

text \<open>
  Python's \<open>min(s, f, r)\<close> keeps the first argument and replaces it by a later one only if
  that one is strictly smaller; \<open>max\<close> likewise with strictly greater.
\<close>

definition py_min3 :: "rat \<Rightarrow> rat \<Rightarrow> rat \<Rightarrow> rat" where
  "py_min3 s f r = (let m = s; m = (if f < m then f else m); m = (if r < m then r else m) in m)"

definition py_max3 :: "rat \<Rightarrow> rat \<Rightarrow> rat \<Rightarrow> rat" where
  "py_max3 s f r = (let m = s; m = (if m < f then f else m); m = (if m < r then r else m) in m)"

definition mins :: "rat list \<Rightarrow> rat list \<Rightarrow> rat list \<Rightarrow> rat list" where
  "mins specialists frontiers random_forests =
     map (\<lambda>(s, f, r). py_min3 s f r) (zip specialists (zip frontiers random_forests))"

definition maxes :: "rat list \<Rightarrow> rat list \<Rightarrow> rat list \<Rightarrow> rat list" where
  "maxes specialists frontiers random_forests =
     map (\<lambda>(s, f, r). py_max3 s f r) (zip specialists (zip frontiers random_forests))"

record feature_row =
  Specialist :: rat
  Frontier :: rat
  RandomForest :: rat
  Min_col :: rat
  Max_col :: rat

text \<open>
  \<open>pd.DataFrame({...})\<close> of five columns: pandas raises \<open>ValueError\<close> unless all columns
  have the same length; otherwise row \<open>i\<close> holds the \<open>i\<close>-th entry of every column.
\<close>

definition DataFrame ::
  "rat list \<Rightarrow> rat list \<Rightarrow> rat list \<Rightarrow> rat list \<Rightarrow> rat list \<Rightarrow> error + feature_row list" where
  "DataFrame c1 c2 c3 c4 c5 =
     (if length c2 = length c1 \<and> length c3 = length c1 \<and> length c4 = length c1
         \<and> length c5 = length c1
      then Inr (map (\<lambda>i. \<lparr>Specialist = c1 ! i, Frontier = c2 ! i, RandomForest = c3 ! i,
                           Min_col = c4 ! i, Max_col = c5 ! i\<rparr>) [0..<length c1])
      else Inl ValueError)"

definition X :: "rat list \<Rightarrow> rat list \<Rightarrow> rat list \<Rightarrow> error + feature_row list" where
  "X specialists frontiers random_forests =
     DataFrame specialists frontiers random_forests
       (mins specialists frontiers random_forests)
       (maxes specialists frontiers random_forests)"

section \<open>Populating the vector store (notebook "Semantic Search for Price Estimation")\<close>

definition description :: "item \<Rightarrow> string" where
  "description it =
     split_first ''\<newline>\<newline>Price is $''
       (replace (prompt it) ''How much does this cost to the nearest dollar?\<newline>\<newline>'' [])"

datatype meta_value = Str string | Num rat

record 'v add_call =
  ids :: "string list"
  documents :: "string list"
  embeddings :: "'v list"
  metadatas :: "(string \<rightharpoonup> meta_value) list"

text \<open>
  One iteration of the batch loop for the offset \<open>i\<close>: the arguments it passes to
  \<open>collection.add\<close>. \<open>train[i: i+1000]\<close> is \<open>take 1000 (drop i train)\<close>, shorter than
  1000 at the end of the list; \<open>range(i, i+1000)\<close> always has 1000 elements. The
  embedding model \<open>encode\<close> is a parameter.
\<close>

definition batch :: "(string list \<Rightarrow> 'v list) \<Rightarrow> item list \<Rightarrow> nat \<Rightarrow> 'v add_call" where
  "batch encode train i =
     (let documents = map description (take 1000 (drop i train));
          vectors = encode documents;
          metadatas = map (\<lambda>it. [''category'' \<mapsto> Str (category it), ''price'' \<mapsto> Num (price it)])
                        (take 1000 (drop i train));
          ids = map (\<lambda>j. ''doc_'' @ str_nat j) [i..<i + 1000]
      in \<lparr>ids = ids, documents = documents, embeddings = vectors, metadatas = metadatas\<rparr>)"

text \<open>\<open>range(0, len(train), 1000)\<close>: the offsets \<open>0, 1000, ...\<close> below \<open>len(train)\<close>.\<close>

definition batch_offsets :: "nat \<Rightarrow> nat list" where
  "batch_offsets n = map (\<lambda>k. k * 1000) [0..<(n + 999) div 1000]"

definition batch_insert :: "(string list \<Rightarrow> 'v list) \<Rightarrow> item list \<Rightarrow> 'v add_call list" where
  "batch_insert encode train = map (batch encode train) (batch_offsets (length train))"

section \<open>Retrieval-augmented estimation (notebook "RAG Test")\<close>

text \<open>
  \<open>make_context\<close> appends one entry per pair of \<open>zip(similars, prices)\<close>. The format
  \<open>{price:.2f}\<close> of a float is Python's own; it is the parameter \<open>fmt\<close>.
\<close>

definition make_context :: "('p \<Rightarrow> string) \<Rightarrow> string list \<Rightarrow> 'p list \<Rightarrow> string" where
  "make_context fmt similars prices =
     foldl (\<lambda>message (similar, price).
              message @ ''Potentially related product:\<newline>'' @ similar
                @ ''\<newline>Price is $'' @ fmt price @ ''\<newline>\<newline>'')
       ''To provide some context, here are some other items that might be similar to the item you need to estimate.\<newline>\<newline>''
       (zip similars prices)"

record message =
  role :: string
  content :: string

text \<open>
  \<open>item.test_prompt()\<close> is a method of the \<open>Item\<close> class, which the notebook imports; its
  result is the parameter \<open>test_prompt\<close>.
\<close>

definition messages_for ::
  "('p \<Rightarrow> string) \<Rightarrow> ('i \<Rightarrow> string) \<Rightarrow> 'i \<Rightarrow> string list \<Rightarrow> 'p list \<Rightarrow> message list" where
  "messages_for fmt test_prompt it similars prices =
     (let system_message =
            ''You estimate prices of items. Reply only with the price, no explanation'';
          user_prompt = make_context fmt similars prices;
          user_prompt = user_prompt @ ''And now the question for you:\<newline>\<newline>'';
          user_prompt = user_prompt
            @ replace (replace (test_prompt it) '' to the nearest dollar'' [])
                ''\<newline>\<newline>Price is $'' []
      in [\<lparr>role = ''system'', content = system_message\<rparr>,
          \<lparr>role = ''user'', content = user_prompt\<rparr>,
          \<lparr>role = ''assistant'', content = ''Price is $''\<rparr>])"

text \<open>
  The answer of \<open>collection.query\<close>: for each query vector, the ranked documents and, in a
  second list, the ranked metadata dictionaries.
\<close>

record 'p query_result =
  res_documents :: "string list list"
  res_metadatas :: "(string \<rightharpoonup> 'p) list list"

text \<open>\<open>[m['price'] for m in ...]\<close>: a dictionary without the key raises \<open>KeyError\<close>.\<close>

fun price_column :: "(string \<rightharpoonup> 'p) list \<Rightarrow> error + 'p list" where
  "price_column [] = Inr []"
| "price_column (m # ms) =
     (case m ''price'' of
        None \<Rightarrow> Inl KeyError
      | Some p \<Rightarrow> (case price_column ms of Inl e \<Rightarrow> Inl e | Inr ps \<Rightarrow> Inr (p # ps)))"

text \<open>
  \<open>find_similars\<close>: the store's \<open>query\<close> takes the list of query vectors and \<open>n_results\<close>;
  \<open>vector(item)\<close> is \<open>model.encode([description(item)])\<close>, and its conversion to a list
  of floats is left to \<open>encode\<close>. Indexing an empty list with \<open>[0]\<close> raises \<open>IndexError\<close>.
\<close>

definition find_similars ::
  "(string list \<Rightarrow> 'v list) \<Rightarrow> ('v list \<Rightarrow> nat \<Rightarrow> 'p query_result) \<Rightarrow> item
     \<Rightarrow> error + (string list \<times> 'p list)" where
  "find_similars encode query it =
     (let results = query (encode [description it]) 5
      in case res_documents results of
           [] \<Rightarrow> Inl IndexError
         | docs # _ \<Rightarrow>
             (case res_metadatas results of
                [] \<Rightarrow> Inl IndexError
              | ms # _ \<Rightarrow>
                  (case price_column ms of
                     Inl e \<Rightarrow> Inl e
                   | Inr prices \<Rightarrow> Inr (docs, prices))))"

text \<open>
  \<open>re.search(r"[-+]?\d*\.\d+|\d+", s)\<close>. The search tries each start position from the
  left; at a position the first alternative \<open>[-+]?\d*\.\d+\<close> is tried before \<open>\d+\<close>. The
  quantifiers are greedy, and giving back digits never helps: after the longest run of
  digits the next character is not a digit, and before its end the next character is a
  digit, not a dot. If the text starts with a sign, skipping the optional sign fails as
  well, since the sign is neither a digit nor a dot. \<open>\d\<close> is read on ASCII text: the
  digits \<open>0\<close> to \<open>9\<close>.
\<close>

definition is_digit :: "char \<Rightarrow> bool" where
  "is_digit c = (c \<in> set ''0123456789'')"

definition match_decimal :: "string \<Rightarrow> string option" where
  "match_decimal s =
     (case dropWhile is_digit s of
        [] \<Rightarrow> None
      | c # r \<Rightarrow>
          if c = CHR ''.'' \<and> takeWhile is_digit r \<noteq> []
          then Some (takeWhile is_digit s @ [c] @ takeWhile is_digit r)
          else None)"

definition match_signed_decimal :: "string \<Rightarrow> string option" where
  "match_signed_decimal s =
     (case s of
        [] \<Rightarrow> None
      | c # r \<Rightarrow>
          if c = CHR ''-'' \<or> c = CHR ''+''
          then (case match_decimal r of Some m \<Rightarrow> Some (c # m) | None \<Rightarrow> match_decimal s)
          else match_decimal s)"

definition match_digits :: "string \<Rightarrow> string option" where
  "match_digits s = (if takeWhile is_digit s \<noteq> [] then Some (takeWhile is_digit s) else None)"

definition match_here :: "string \<Rightarrow> string option" where
  "match_here s =
     (case match_signed_decimal s of Some m \<Rightarrow> Some m | None \<Rightarrow> match_digits s)"

fun re_search :: "string \<Rightarrow> string option" where
  "re_search [] = match_here []"
| "re_search (c # cs) =
     (case match_here (c # cs) of Some m \<Rightarrow> Some m | None \<Rightarrow> re_search cs)"

text \<open>
  \<open>float(match.group())\<close> on a matched token: the number the decimal literal denotes
  (Python then rounds it to the nearest double).
\<close>

definition digit_val :: "char \<Rightarrow> nat" where
  "digit_val c = of_char c - 48"

definition nat_of_digits :: "string \<Rightarrow> nat" where
  "nat_of_digits ds = foldl (\<lambda>a c. 10 * a + digit_val c) 0 ds"

definition unsigned_value :: "string \<Rightarrow> rat" where
  "unsigned_value body =
     (let ip = takeWhile is_digit body;
          fp = drop 1 (dropWhile is_digit body)
      in of_nat (nat_of_digits ip) + of_nat (nat_of_digits fp) / 10 ^ length fp)"

definition float_of_token :: "string \<Rightarrow> rat" where
  "float_of_token tok =
     (case tok of
        [] \<Rightarrow> 0
      | c # r \<Rightarrow>
          if c = CHR ''-'' then - unsigned_value r
          else if c = CHR ''+'' then unsigned_value r
          else unsigned_value tok)"

definition get_price :: "string \<Rightarrow> rat" where
  "get_price s =
     (let s = replace (replace s ''$'' []) '','' []
      in case re_search s of Some m \<Rightarrow> float_of_token m | None \<Rightarrow> 0)"

text \<open>
  The DeepSeek client is the parameter \<open>create\<close>: on the state \<open>w\<close> of the outside world it
  either raises (\<open>Inl\<close> with the exception's text) or returns the reply's content. The
  loop \<open>while not done and retries > 0\<close> is a recursion on \<open>retries\<close>: a success sets
  \<open>done\<close> and leaves the loop, a failure prints the error and decrements \<open>retries\<close>. The
  result is the value of \<open>reply\<close> if it was ever assigned, with the world, the list of
  requests sent and the lines printed.
\<close>

fun retry_loop ::
  "('w \<Rightarrow> message list \<Rightarrow> (string + string) \<times> 'w) \<Rightarrow> message list \<Rightarrow> nat \<Rightarrow> 'w
     \<Rightarrow> message list list \<Rightarrow> string list
     \<Rightarrow> string option \<times> 'w \<times> message list list \<times> string list" where
  "retry_loop create msgs 0 w sent printed = (None, w, sent, printed)"
| "retry_loop create msgs (Suc retries) w sent printed =
     (case create w msgs of
        (Inr reply, w') \<Rightarrow> (Some reply, w', sent @ [msgs], printed)
      | (Inl e, w') \<Rightarrow>
          retry_loop create msgs retries w' (sent @ [msgs]) (printed @ [''Error: '' @ e]))"

text \<open>
  After the loop \<open>return get_price(reply)\<close> reads \<open>reply\<close>; if no attempt assigned it,
  Python raises \<open>UnboundLocalError\<close>.
\<close>

definition deepseek_api_rag ::
  "('p \<Rightarrow> string) \<Rightarrow> (item \<Rightarrow> string) \<Rightarrow> (string list \<Rightarrow> 'v list)
     \<Rightarrow> ('v list \<Rightarrow> nat \<Rightarrow> 'p query_result)
     \<Rightarrow> ('w \<Rightarrow> message list \<Rightarrow> (string + string) \<times> 'w) \<Rightarrow> 'w \<Rightarrow> item
     \<Rightarrow> (error + rat) \<times> 'w \<times> message list list \<times> string list" where
  "deepseek_api_rag fmt test_prompt encode query create w it =
     (case find_similars encode query it of
        Inl e \<Rightarrow> (Inl e, w, [], [])
      | Inr (docs, prices) \<Rightarrow>
          (case retry_loop create (messages_for fmt test_prompt it docs prices) 8 w [] [] of
             (None, trace) \<Rightarrow> (Inl (UnboundLocalError ''reply''), trace)
           | (Some reply, trace) \<Rightarrow> (Inr (get_price reply), trace)))"

section \<open>Data curation (notebook "Data Curation for Large Language Models")\<close>

text \<open>
  A raw record of the dataset; only its \<open>price\<close> field matters here. The field holds a
  string, or Python's \<open>None\<close>. \<open>float(x)\<close> raises \<open>ValueError\<close> on a string that is not a
  number and \<open>TypeError\<close> on \<open>None\<close>; on a string it is the parameter \<open>py_float\<close>, whose
  results include the infinities and NaN.
\<close>

record datapoint =
  raw_price :: "string option"

datatype pyfloat = Finite rat | PosInf | NegInf | NaN

fun float_le :: "pyfloat \<Rightarrow> pyfloat \<Rightarrow> bool" where
  "float_le NaN b = False"
| "float_le a NaN = False"
| "float_le NegInf b = True"
| "float_le a PosInf = True"
| "float_le (Finite a) (Finite b) = (a \<le> b)"
| "float_le a b = False"

text \<open>
  The loop that builds \<open>items\<close>. Only \<open>ValueError\<close> is caught; a \<open>TypeError\<close> leaves the
  loop. The constructor \<open>Item(datapoint, price)\<close> and the attribute \<open>include\<close> belong to
  the \<open>Item\<close> class and are the parameters \<open>Item\<close> and \<open>include\<close>.
\<close>

fun items_loop ::
  "(string \<Rightarrow> pyfloat option) \<Rightarrow> ('a datapoint_scheme \<Rightarrow> pyfloat \<Rightarrow> 'i) \<Rightarrow> ('i \<Rightarrow> bool)
     \<Rightarrow> 'a datapoint_scheme list \<Rightarrow> 'i list \<Rightarrow> error + 'i list" where
  "items_loop py_float Item include [] items = Inr items"
| "items_loop py_float Item include (d # dataset) items =
     (case raw_price d of
        None \<Rightarrow> Inl TypeError
      | Some s \<Rightarrow>
          (case py_float s of
             None \<Rightarrow> items_loop py_float Item include dataset items
           | Some p \<Rightarrow>
               if float_le (Finite 1) p \<and> float_le p (Finite 999)
               then (if include (Item d p)
                     then items_loop py_float Item include dataset (items @ [Item d p])
                     else items_loop py_float Item include dataset items)
               else items_loop py_float Item include dataset items))"

definition items ::
  "(string \<Rightarrow> pyfloat option) \<Rightarrow> ('a datapoint_scheme \<Rightarrow> pyfloat \<Rightarrow> 'i) \<Rightarrow> ('i \<Rightarrow> bool)
     \<Rightarrow> 'a datapoint_scheme list \<Rightarrow> error + 'i list" where
  "items py_float Item include dataset = items_loop py_float Item include dataset []"

text \<open>
  The price a record is curated with, in the words of the specification: the field is
  present, converts to a number, and the number lies in the closed interval from 1 to 999.
\<close>

definition curated_price :: "(string \<Rightarrow> pyfloat option) \<Rightarrow> 'a datapoint_scheme \<Rightarrow> rat option" where
  "curated_price py_float d =
     (case raw_price d of
        None \<Rightarrow> None
      | Some s \<Rightarrow>
          (case py_float s of
             Some (Finite p) \<Rightarrow> if 1 \<le> p \<and> p \<le> 999 then Some p else None
           | _ \<Rightarrow> None))"

text \<open>The item such a record contributes, if the \<open>Item\<close> class marks it for inclusion.\<close>

definition curated_item ::
  "(string \<Rightarrow> pyfloat option) \<Rightarrow> ('a datapoint_scheme \<Rightarrow> pyfloat \<Rightarrow> 'i) \<Rightarrow> ('i \<Rightarrow> bool)
     \<Rightarrow> 'a datapoint_scheme \<Rightarrow> 'i option" where
  "curated_item py_float Item include d =
     (case curated_price py_float d of
        None \<Rightarrow> None
      | Some p \<Rightarrow> if include (Item d (Finite p)) then Some (Item d (Finite p)) else None)"

section \<open>Deal scanner (notebook "Scanner Agent")\<close>

text \<open>
  \<open>DealSelection\<close> is imported from \<open>Core.deals\<close>; as the system prompt and the
  specification give it, a selection is a list of deals, each with a product
  description, a price and a url.
\<close>

record deal =
  product_description :: string
  deal_price :: rat
  url :: string

record deal_selection =
  deals :: "deal list"

definition system_prompt :: string where
  \<open>system_prompt = ''You identify and summarize the 5 most detailed deals from a list, by selecting deals that have the most detailed, high quality description and the most clear price.\<newline>Respond strictly in JSON with no explanation, using this format. You should provide the price as a number derived from the description. If the price of a deal isn't clear, do not include that deal in your response.\<newline>Most important is that you respond with the 5 deals that have the most detailed product description with price. It's not important to mention the terms of the deal; most important is a thorough description of the product.\<newline>Be careful with products that are described as "$XXX off" or "reduced by $XXX" - this isn't the actual price of the product. Only respond with products when you are highly confident about the price. \<newline>\<newline>{"deals": [\<newline>    {\<newline>        "product_description": "Your clearly expressed summary of the product in 4-5 sentences. Details of the item are much more important than why it's a good deal. Avoid mentioning discounts and coupons; focus on the item itself. There should be a paragpraph of text for each item you choose.",\<newline>        "price": 99.99,\<newline>        "url": "the url as provided"\<newline>    },\<newline>    ...\<newline>]}''\<close>

fun join :: "string \<Rightarrow> string list \<Rightarrow> string" where
  "join sep [] = []"
| "join sep [x] = x"
| "join sep (x # y # ys) = x @ sep @ join sep (y # ys)"

text \<open>\<open>deal.describe()\<close> is a method of \<open>ScrapedDeal\<close> (\<open>Core.deals\<close>), the parameter \<open>describe\<close>.\<close>

definition user_prompt :: "('d \<Rightarrow> string) \<Rightarrow> 'd list \<Rightarrow> string" where
  \<open>user_prompt describe scraped =
     ''Respond with the most promising 5 deals from this list, selecting those which have the most detailed, high quality product description and a clear price.\<newline>Respond strictly in JSON, and only JSON. You should rephrase the description to be a summary of the product itself, not the terms of the deal.\<newline>Remember to respond with a paragraph of text in the product_description field for each of the 5 items that you select.\<newline>Be careful with products that are described as "$XXX off" or "reduced by $XXX" - this isn't the actual price of the product. Only respond with products when you are highly confident about the price. \<newline>\<newline>Deals:\<newline>\<newline>''
     @ join ''\<newline>\<newline>'' (map describe scraped)\<close>

text \<open>
  \<open>get_recommendations\<close> sends the two messages to the model and returns the parsed
  reply as it is. The call \<open>openai.beta.chat.completions.parse\<close> with
  \<open>response_format=DealSelection\<close> followed by \<open>.choices[0].message.parsed\<close> is the
  parameter \<open>parse\<close>.
\<close>

definition get_recommendations ::
  "(message list \<Rightarrow> deal_selection) \<Rightarrow> ('d \<Rightarrow> string) \<Rightarrow> 'd list \<Rightarrow> deal_selection" where
  "get_recommendations parse describe scraped =
     (let completion_parsed =
            parse [\<lparr>role = ''system'', content = system_prompt\<rparr>,
                   \<lparr>role = ''user'', content = user_prompt describe scraped\<rparr>];
          result = completion_parsed
      in result)"

text \<open>A reply the model can give: six deals, all priced from a discount amount.\<close>

definition six_deals :: "message list \<Rightarrow> deal_selection" where
  "six_deals msgs =
     \<lparr>deals = replicate 6 \<lparr>product_description = ''Cordless drill, $20 off'', deal_price = 20,
                            url = ''https://example.com/drill''\<rparr>\<rparr>"

section \<open>Balancing and splitting the dataset (notebook "The Product Pricer Continued")\<close>

text \<open>
  Python's \<open>round(x)\<close> of a float rounds to the nearest integer, and a value half way
  between two integers to the even one.
\<close>

definition py_round :: "rat \<Rightarrow> int" where
  "py_round x =
     (let f = \<lfloor>x\<rfloor>; d = x - of_int f
      in if d < 1 / 2 then f else if 1 / 2 < d then f + 1 else if even f then f else f + 1)"

text \<open>
  \<open>slots[round(item.price)].append(item)\<close> over all items: slot \<open>i\<close> holds, in the order
  of \<open>items\<close>, those whose rounded price is \<open>i\<close>; a slot never written is the empty list
  of the \<open>defaultdict\<close>.
\<close>

definition slots :: "item list \<Rightarrow> int \<Rightarrow> item list" where
  "slots its i = filter (\<lambda>it. py_round (price it) = i) its"

definition slot_weights :: "item list \<Rightarrow> rat list" where
  "slot_weights slot =
     (let weights = map (\<lambda>it. if category it = ''Automotive'' then 1 else 5) slot
      in map (\<lambda>w. w / sum_list weights) weights)"

text \<open>
  \<open>np.random.choice(n, size=1200, replace=False, p=weights)\<close> is numpy's; it is the
  parameter \<open>choice\<close>, which takes and returns the generator's state. The loop body for
  one price \<open>i\<close> extends \<open>sample\<close>; \<open>slot[j]\<close> for an index outside the slot raises
  \<open>IndexError\<close>.
\<close>

fun sample_loop ::
  "('g \<Rightarrow> nat \<Rightarrow> nat \<Rightarrow> rat list \<Rightarrow> nat list \<times> 'g) \<Rightarrow> (int \<Rightarrow> item list) \<Rightarrow> int list \<Rightarrow> 'g
     \<Rightarrow> item list \<Rightarrow> error + (item list \<times> 'g)" where
  "sample_loop choice slots_of [] g sample = Inr (sample, g)"
| "sample_loop choice slots_of (i # rest) g sample =
     (let slot = slots_of i
      in if i \<ge> 240 then sample_loop choice slots_of rest g (sample @ slot)
         else if length slot \<le> 1200 then sample_loop choice slots_of rest g (sample @ slot)
         else (case choice g (length slot) 1200 (slot_weights slot) of
                 (selected_indices, g') \<Rightarrow>
                   if \<forall>j \<in> set selected_indices. j < length slot
                   then sample_loop choice slots_of rest g'
                          (sample @ map (\<lambda>j. slot ! j) selected_indices)
                   else Inl IndexError))"

text \<open>
  The balancing cell: \<open>np.random.seed(42)\<close>, then the loop over \<open>range(1, 1000)\<close>. The
  seeding function is the parameter \<open>np_seed\<close>.
\<close>

definition sample ::
  "(nat \<Rightarrow> 'g) \<Rightarrow> ('g \<Rightarrow> nat \<Rightarrow> nat \<Rightarrow> rat list \<Rightarrow> nat list \<times> 'g) \<Rightarrow> item list
     \<Rightarrow> error + (item list \<times> 'g)" where
  "sample np_seed choice its = sample_loop choice (slots its) [1..999] (np_seed 42) []"

text \<open>
  What numpy promises of \<open>choice(n, size=k, replace=False, p=weights)\<close> when \<open>weights\<close> is
  a probability vector of length \<open>n\<close> with no zero entry and \<open>k \<le> n\<close>: \<open>k\<close> different
  indices below \<open>n\<close>.
\<close>

definition choice_contract :: "('g \<Rightarrow> nat \<Rightarrow> nat \<Rightarrow> rat list \<Rightarrow> nat list \<times> 'g) \<Rightarrow> bool" where
  "choice_contract choice \<longleftrightarrow>
     (\<forall>g n k p. k \<le> n \<and> length p = n \<and> sum_list p = 1 \<and> (\<forall>x \<in> set p. 0 < x) \<longrightarrow>
        length (fst (choice g n k p)) = k \<and> distinct (fst (choice g n k p))
        \<and> (\<forall>j \<in> set (fst (choice g n k p)). j < n))"

text \<open>A choice function that keeps the contract: the first \<open>k\<close> indices.\<close>

definition first_indices :: "nat \<Rightarrow> nat \<Rightarrow> nat \<Rightarrow> rat list \<Rightarrow> nat list \<times> nat" where
  "first_indices g n k p = ([0..<k], Suc g)"

text \<open>
  What the iteration for the price \<open>i\<close> appends to \<open>sample\<close>: the whole slot, or the
  items at the indices some call of \<open>choice\<close> selected from it.
\<close>

definition slot_outcome ::
  "('g \<Rightarrow> nat \<Rightarrow> nat \<Rightarrow> rat list \<Rightarrow> nat list \<times> 'g) \<Rightarrow> (int \<Rightarrow> item list) \<Rightarrow> int
     \<Rightarrow> item list \<Rightarrow> bool" where
  "slot_outcome choice slots_of i c \<longleftrightarrow>
     (if 240 \<le> i \<or> length (slots_of i) \<le> 1200 then c = slots_of i
      else \<exists>g. (\<forall>j \<in> set (fst (choice g (length (slots_of i)) 1200 (slot_weights (slots_of i)))).
                   j < length (slots_of i))
             \<and> c = map (\<lambda>j. slots_of i ! j)
                       (fst (choice g (length (slots_of i)) 1200 (slot_weights (slots_of i)))))"

text \<open>
  The split cell: \<open>random.seed(42)\<close>, \<open>random.shuffle(sample)\<close>, then the two slices.
  \<open>seed\<close> and \<open>shuffle\<close> are the standard library's and are parameters; \<open>seed\<close> replaces
  the generator's state, whatever it was, and \<open>shuffle\<close> reads and advances it.
\<close>

definition train_test_split ::
  "(nat \<Rightarrow> 'r) \<Rightarrow> ('r \<Rightarrow> 'a list \<Rightarrow> 'a list \<times> 'r) \<Rightarrow> 'r \<Rightarrow> 'a list
     \<Rightarrow> ('a list \<times> 'a list) \<times> 'a list \<times> 'r" where
  "train_test_split seed shuffle r0 smp =
     (let r1 = seed 42;
          (shuffled, r2) = shuffle r1 smp;
          train = take 400000 shuffled;
          test = take (402000 - 400000) (drop 400000 shuffled)
      in ((train, test), shuffled, r2))"

section \<open>Properties\<close>

lemma py_min3_eq: "py_min3 s f r = min s (min f r)"
  by (simp add: py_min3_def Let_def min_def)

lemma py_max3_eq: "py_max3 s f r = max s (max f r)"
  by (simp add: py_max3_def Let_def max_def)

subsection \<open>Ensemble features\<close>

lemma mins_nth:
  "i < length sp \<Longrightarrow> i < length fr \<Longrightarrow> i < length rf \<Longrightarrow>
     mins sp fr rf ! i = py_min3 (sp ! i) (fr ! i) (rf ! i)"
  by (simp add: mins_def)

lemma maxes_nth:
  "i < length sp \<Longrightarrow> i < length fr \<Longrightarrow> i < length rf \<Longrightarrow>
     maxes sp fr rf ! i = py_max3 (sp ! i) (fr ! i) (rf ! i)"
  by (simp add: maxes_def)

lemma X_rows:
  assumes "X sp fr rf = Inr rows"
  shows "length fr = length sp \<and> length rf = length sp \<and>
         rows = map (\<lambda>i. \<lparr>Specialist = sp ! i, Frontier = fr ! i, RandomForest = rf ! i,
                           Min_col = mins sp fr rf ! i, Max_col = maxes sp fr rf ! i\<rparr>)
                  [0..<length sp]"
  using assms by (auto simp: X_def DataFrame_def split: if_splits)

lemma X_total:
  "length fr = length sp \<Longrightarrow> length rf = length sp \<Longrightarrow>
     \<exists>rows. X sp fr rf = Inr rows \<and> length rows = length sp"
  by (simp add: X_def DataFrame_def mins_def maxes_def)

lemma X_Inr_iff:
  "(\<exists>rows. X sp fr rf = Inr rows) \<longleftrightarrow> (length fr = length sp \<and> length rf = length sp)"
  by (auto simp: X_def DataFrame_def mins_def maxes_def)

text \<open>
  Claim C5. The three lists hold the triples of estimates, item \<open>i\<close> having the triple
  of the \<open>i\<close>-th entries. Built from lists of one length, the feature matrix has one row
  per triple; row \<open>i\<close> holds the three estimates of triple \<open>i\<close>, its Min entry is the
  minimum of the three and its Max entry the maximum, and so Min \<open>\<le>\<close> each estimate
  \<open>\<le>\<close> Max in every row. With lists of different lengths pandas raises and there is
  no matrix. (Estimates are numbers; NaN is outside the model.)
\<close>

theorem ensemble_rows_min_max:
  "(length fr = length sp \<and> length rf = length sp \<longrightarrow>
      (\<exists>rows. X sp fr rf = Inr rows \<and> length rows = length sp
         \<and> (\<forall>i < length sp.
               Specialist (rows ! i) = sp ! i \<and> Frontier (rows ! i) = fr ! i
             \<and> RandomForest (rows ! i) = rf ! i
             \<and> Min_col (rows ! i) = min (sp ! i) (min (fr ! i) (rf ! i))
             \<and> Max_col (rows ! i) = max (sp ! i) (max (fr ! i) (rf ! i))
             \<and> Min_col (rows ! i) \<le> sp ! i \<and> sp ! i \<le> Max_col (rows ! i)
             \<and> Min_col (rows ! i) \<le> fr ! i \<and> fr ! i \<le> Max_col (rows ! i)
             \<and> Min_col (rows ! i) \<le> rf ! i \<and> rf ! i \<le> Max_col (rows ! i))))
   \<and> (\<not> (length fr = length sp \<and> length rf = length sp) \<longrightarrow> X sp fr rf = Inl ValueError)"
proof (intro conjI impI)
  assume len: "length fr = length sp \<and> length rf = length sp"
  let ?rows = "map (\<lambda>i. \<lparr>Specialist = sp ! i, Frontier = fr ! i, RandomForest = rf ! i,
                           Min_col = mins sp fr rf ! i, Max_col = maxes sp fr rf ! i\<rparr>)
                  [0..<length sp]"
  have x: "X sp fr rf = Inr ?rows"
    using len by (simp add: X_def DataFrame_def mins_def maxes_def)
  have row: "?rows ! i = \<lparr>Specialist = sp ! i, Frontier = fr ! i, RandomForest = rf ! i,
                           Min_col = py_min3 (sp ! i) (fr ! i) (rf ! i),
                           Max_col = py_max3 (sp ! i) (fr ! i) (rf ! i)\<rparr>"
    if "i < length sp" for i
    using that len by (simp add: mins_nth maxes_nth)
  have "\<forall>i < length sp.
               Specialist (?rows ! i) = sp ! i \<and> Frontier (?rows ! i) = fr ! i
             \<and> RandomForest (?rows ! i) = rf ! i
             \<and> Min_col (?rows ! i) = min (sp ! i) (min (fr ! i) (rf ! i))
             \<and> Max_col (?rows ! i) = max (sp ! i) (max (fr ! i) (rf ! i))
             \<and> Min_col (?rows ! i) \<le> sp ! i \<and> sp ! i \<le> Max_col (?rows ! i)
             \<and> Min_col (?rows ! i) \<le> fr ! i \<and> fr ! i \<le> Max_col (?rows ! i)
             \<and> Min_col (?rows ! i) \<le> rf ! i \<and> rf ! i \<le> Max_col (?rows ! i)"
  proof (intro allI impI)
    fix i assume "i < length sp"
    from row [OF this] show "Specialist (?rows ! i) = sp ! i \<and> Frontier (?rows ! i) = fr ! i
             \<and> RandomForest (?rows ! i) = rf ! i
             \<and> Min_col (?rows ! i) = min (sp ! i) (min (fr ! i) (rf ! i))
             \<and> Max_col (?rows ! i) = max (sp ! i) (max (fr ! i) (rf ! i))
             \<and> Min_col (?rows ! i) \<le> sp ! i \<and> sp ! i \<le> Max_col (?rows ! i)
             \<and> Min_col (?rows ! i) \<le> fr ! i \<and> fr ! i \<le> Max_col (?rows ! i)
             \<and> Min_col (?rows ! i) \<le> rf ! i \<and> rf ! i \<le> Max_col (?rows ! i)"
      by (simp only: py_min3_eq py_max3_eq)
         (simp add: min_le_iff_disj le_max_iff_disj)
  qed
  moreover have "length ?rows = length sp" by simp
  ultimately show "\<exists>rows. X sp fr rf = Inr rows \<and> length rows = length sp
         \<and> (\<forall>i < length sp.
               Specialist (rows ! i) = sp ! i \<and> Frontier (rows ! i) = fr ! i
             \<and> RandomForest (rows ! i) = rf ! i
             \<and> Min_col (rows ! i) = min (sp ! i) (min (fr ! i) (rf ! i))
             \<and> Max_col (rows ! i) = max (sp ! i) (max (fr ! i) (rf ! i))
             \<and> Min_col (rows ! i) \<le> sp ! i \<and> sp ! i \<le> Max_col (rows ! i)
             \<and> Min_col (rows ! i) \<le> fr ! i \<and> fr ! i \<le> Max_col (rows ! i)
             \<and> Min_col (rows ! i) \<le> rf ! i \<and> rf ! i \<le> Max_col (rows ! i))"
    using x by blast
next
  assume "\<not> (length fr = length sp \<and> length rf = length sp)"
  then show "X sp fr rf = Inl ValueError"
    by (auto simp: X_def DataFrame_def)
qed

theorem ensemble_rows_min_max_witness:
  "length [15, 5 :: rat] = length [10, 20 :: rat] \<and> length [12, 30 :: rat] = length [10, 20 :: rat]
   \<and> X [10, 20] [15, 5] [12, 30]
     = Inr [\<lparr>Specialist = 10, Frontier = 15, RandomForest = 12, Min_col = 10, Max_col = 15\<rparr>,
            \<lparr>Specialist = 20, Frontier = 5, RandomForest = 30, Min_col = 5, Max_col = 30\<rparr>]
   \<and> (\<exists>rows. X [10, 20] [15, 5] [12, 30] = Inr rows \<and> length rows = 2
         \<and> Min_col (rows ! 1) = 5 \<and> Max_col (rows ! 1) = 30
         \<and> Min_col (rows ! 1) \<le> 20 \<and> 20 \<le> Max_col (rows ! 1))"
proof -
  have x: "X [10, 20] [15, 5] [12, 30]
     = Inr [\<lparr>Specialist = 10, Frontier = 15, RandomForest = 12, Min_col = 10, Max_col = 15\<rparr>,
            \<lparr>Specialist = 20, Frontier = 5, RandomForest = 30, Min_col = 5, Max_col = 30\<rparr>]"
    by (simp add: X_def DataFrame_def mins_def maxes_def py_min3_def py_max3_def upt_rec)
  from ensemble_rows_min_max [of "[15, 5]" "[10, 20]" "[12, 30]"]
  obtain rows where r: "X [10, 20] [15, 5] [12, 30] = Inr rows" "length rows = length [10, 20 :: rat]"
    and all: "\<forall>i < length [10, 20 :: rat].
               Min_col (rows ! i) = min ([10, 20] ! i) (min ([15, 5] ! i) ([12, 30] ! i))
             \<and> Max_col (rows ! i) = max ([10, 20] ! i) (max ([15, 5] ! i) ([12, 30] ! i))
             \<and> Min_col (rows ! i) \<le> [10, 20] ! i \<and> [10, 20] ! i \<le> Max_col (rows ! i)"
    by auto
  from all have "Min_col (rows ! 1) = 5 \<and> Max_col (rows ! 1) = 30
         \<and> Min_col (rows ! 1) \<le> 20 \<and> 20 \<le> Max_col (rows ! 1)"
    by (auto dest!: spec [of _ 1])
  with r x show ?thesis by auto
qed

subsection \<open>Populating the vector store\<close>

lemma digit_val_digit_char: "d < 10 \<Longrightarrow> digit_val (digit_char d) = d"
proof -
  assume "d < 10"
  then have "d \<in> {0, 1, 2, 3, 4, 5, 6, 7, 8, 9}" by auto
  then show ?thesis
    by (auto simp: digit_val_def digit_char_def)
qed

lemma nat_of_digits_snoc: "nat_of_digits (ds @ [c]) = 10 * nat_of_digits ds + digit_val c"
  by (simp add: nat_of_digits_def)

lemma nat_of_digits_str_nat: "nat_of_digits (str_nat n) = n"
proof (induction n rule: str_nat.induct)
  case (1 n)
  show ?case
  proof (cases "n < 10")
    case True
    then show ?thesis
      using digit_val_digit_char [of n] by (simp add: nat_of_digits_def str_nat.simps [of n])
  next
    case False
    then have "nat_of_digits (str_nat n) = 10 * (n div 10) + n mod 10"
      using 1 by (simp add: nat_of_digits_snoc digit_val_digit_char str_nat.simps [of n])
    then show ?thesis by simp
  qed
qed

lemma inj_str_nat: "inj str_nat"
  by (rule inj_on_inverseI [where g = nat_of_digits]) (rule nat_of_digits_str_nat)

lemma inj_doc_id: "inj (\<lambda>j. ''doc_'' @ str_nat j)"
  using inj_str_nat by (auto simp: inj_def)

lemma concat_ranges: "concat (map (\<lambda>k. [k * 1000..<k * 1000 + 1000]) [0..<m]) = [0..<m * 1000]"
proof (induction m)
  case 0
  show ?case by simp
next
  case (Suc m)
  have "[0..<m * 1000 + 1000] = [0..<m * 1000] @ [m * 1000..<m * 1000 + 1000]"
    by (rule upt_add_eq_append) simp
  with Suc show ?case by (simp add: add.commute)
qed

lemma ids_batch: "ids (batch encode train i) = map (\<lambda>j. ''doc_'' @ str_nat j) [i..<i + 1000]"
  by (simp add: batch_def Let_def)

lemma documents_batch: "documents (batch encode train i) = map description (take 1000 (drop i train))"
  by (simp add: batch_def Let_def)

lemma all_ids: "concat (map ids (batch_insert encode train))
    = map (\<lambda>j. ''doc_'' @ str_nat j) [0..<((length train + 999) div 1000) * 1000]"
proof -
  have "concat (map ids (batch_insert encode train))
     = concat (map (\<lambda>k. map (\<lambda>j. ''doc_'' @ str_nat j) [k * 1000..<k * 1000 + 1000]) [0..<(length train + 999) div 1000])"
    by (simp add: batch_insert_def batch_offsets_def ids_batch comp_def)
  also have "\<dots> = map (\<lambda>j. ''doc_'' @ str_nat j) (concat (map (\<lambda>k. [k * 1000..<k * 1000 + 1000]) [0..<(length train + 999) div 1000]))"
    by (simp add: map_concat comp_def)
  finally show ?thesis by (simp only: concat_ranges)
qed

lemma ids_unique: "distinct (concat (map ids (batch_insert encode train)))"
proof -
  have "inj_on (\<lambda>j. ''doc_'' @ str_nat j) (set [0..<((length train + 999) div 1000) * 1000])"
    by (rule inj_on_subset [OF inj_doc_id]) simp
  then show ?thesis
    unfolding all_ids distinct_map using distinct_upt by blast
qed

lemma ids_documents_full_batches:
  assumes "1000 dvd length train" and "b \<in> set (batch_insert encode train)"
  shows "length (ids b) = length (documents b)"
proof -
  from assms(2) obtain k where k: "k < (length train + 999) div 1000" and b: "b = batch encode train (k * 1000)"
    by (auto simp: batch_insert_def batch_offsets_def)
  from assms(1) obtain q where q: "length train = 1000 * q" by (auto simp: dvd_def)
  from k q have "k < q" by simp
  then have "k * 1000 + 1000 \<le> length train" using q by simp
  then show ?thesis by (simp add: b ids_batch documents_batch)
qed

text \<open>
  Claim C7. The ids are unique across the store (\<open>ids_unique\<close>), and ids and documents
  have equal lengths when the number of items is a multiple of 1000
  (\<open>ids_documents_full_batches\<close>). Otherwise the last batch is passed 1000 ids for
  fewer documents: with 1500 items the second call to \<open>collection.add\<close> gets 1000 ids
  and 500 documents, so the ids list does not correspond one-to-one with the documents.
\<close>

theorem batch_ids_documents_mismatch:
  "map (\<lambda>b. (length (ids b), length (documents b))) (batch_insert encode (replicate 1500 it))
     = [(1000, 1000), (1000, 500)]"
proof -
  have "batch_offsets 1500 = [0, 1000]"
    by (simp add: batch_offsets_def upt_rec)
  then show ?thesis
    by (simp add: batch_insert_def ids_batch documents_batch)
qed

subsection \<open>Parsing the reply and the DeepSeek retry loop\<close>

lemma replace_from_single: "replace_from [c] [] 0 s = filter (\<lambda>x. x \<noteq> c) s"
  by (induction s) auto

lemma replace_single: "replace s [c] [] = filter (\<lambda>x. x \<noteq> c) s"
  by (simp add: replace_def replace_from_single)

lemma takeWhile_no_digit: "\<forall>c \<in> set s. \<not> is_digit c \<Longrightarrow> takeWhile is_digit s = []"
  by (cases s) auto

lemma match_decimal_no_digit: "\<forall>c \<in> set s. \<not> is_digit c \<Longrightarrow> match_decimal s = None"
  by (cases s) (auto simp: match_decimal_def takeWhile_no_digit split: list.splits)

lemma match_here_no_digit: "\<forall>c \<in> set s. \<not> is_digit c \<Longrightarrow> match_here s = None"
  by (cases s) (auto simp: match_here_def match_signed_decimal_def match_digits_def
      match_decimal_no_digit split: option.splits)

lemma re_search_no_digit: "\<forall>c \<in> set s. \<not> is_digit c \<Longrightarrow> re_search s = None"
  by (induction s) (auto simp: match_here_no_digit split: option.splits)

lemma get_price_no_digit: "\<forall>c \<in> set s. \<not> is_digit c \<Longrightarrow> get_price s = 0"
  by (simp add: get_price_def replace_single re_search_no_digit)

lemma match_here_digit: "is_digit c \<Longrightarrow> match_here (c # cs) \<noteq> None"
  by (auto simp: match_here_def match_digits_def split: option.splits)

lemma re_search_digit: "\<exists>c \<in> set s. is_digit c \<Longrightarrow> re_search s \<noteq> None"
proof (induction s)
  case Nil
  then show ?case by simp
next
  case (Cons a s)
  show ?case
  proof (cases "is_digit a")
    case True
    from match_here_digit [OF this, of s] show ?thesis by (auto split: option.splits)
  next
    case False
    with Cons show ?thesis by (auto split: option.splits)
  qed
qed

text \<open>
  Claim C1. Removing \<open>$\<close> and \<open>,\<close> is a filter (\<open>replace_single\<close>), a text without a
  digit gives 0 (\<open>get_price_no_digit\<close>) and a text with a digit gives a token
  (\<open>re_search_digit\<close>). But the sign \<open>[-+]?\<close> belongs to the first alternative of the
  pattern only: the signed decimal \<open>-5.0\<close> is read as \<open>-5\<close>, while for the signed integer
  \<open>-5\<close> the first token found is \<open>5\<close>, not the signed integer.
\<close>

theorem get_price_drops_sign:
  "get_price ''-5'' = 5 \<and> get_price ''-5.0'' = - 5"
  by code_simp

lemma retry_loop_trace:
  "retry_loop create msgs n w sent printed = (r, w', sent', printed') \<Longrightarrow>
     \<exists>k \<le> n. sent' = sent @ replicate k msgs
        \<and> (case r of
              None \<Rightarrow> k = n \<and> length printed' = length printed + n
            | Some reply \<Rightarrow> 0 < k \<and> length printed' = length printed + (k - 1))"
proof (induction n arbitrary: w sent printed)
  case 0
  then show ?case by auto
next
  case (Suc n)
  obtain res w1 where c: "create w msgs = (res, w1)" by (cases "create w msgs")
  show ?case
  proof (cases res)
    case (Inr reply)
    with c Suc.prems have "r = Some reply" "sent' = sent @ replicate 1 msgs" "printed' = printed"
      by auto
    then show ?thesis by (intro exI [of _ 1]) auto
  next
    case (Inl e)
    with c Suc.prems
    have "retry_loop create msgs n w1 (sent @ [msgs]) (printed @ [''Error: '' @ e])
            = (r, w', sent', printed')"
      by simp
    from Suc.IH [OF this] obtain k where k: "k \<le> n" "sent' = (sent @ [msgs]) @ replicate k msgs"
      "(case r of None \<Rightarrow> k = n \<and> length printed' = length (printed @ [''Error: '' @ e]) + n
            | Some reply \<Rightarrow> 0 < k \<and> length printed' = length (printed @ [''Error: '' @ e]) + (k - 1))"
      by blast
    show ?thesis
      using k by (intro exI [of _ "Suc k"]) (auto simp: replicate_app_Cons_same split: option.splits)
  qed
qed

lemma retry_loop_all_fail:
  "retry_loop (\<lambda>w _. (Inl e, w)) msgs n w sent printed
     = (None, w, sent @ replicate n msgs, printed @ replicate n (''Error: '' @ e))"
  by (induction n arbitrary: sent printed) (simp_all add: replicate_app_Cons_same)

lemma deepseek_api_rag_all_attempts_fail:
  "find_similars encode query it = Inr (docs, prices) \<Longrightarrow>
     deepseek_api_rag fmt test_prompt encode query (\<lambda>w msgs. (Inl e, w)) w it
       = (Inl (UnboundLocalError ''reply''), w,
          replicate 8 (messages_for fmt test_prompt it docs prices),
          replicate 8 (''Error: '' @ e))"
  by (simp add: deepseek_api_rag_def retry_loop_all_fail)

text \<open>
  Claim C2. The loop sends the same request at most 8 times and stops at the first
  success (\<open>retry_loop_trace\<close>). When all 8 attempts raise, every upstream error has been
  caught and printed, and what reaches the caller is the \<open>UnboundLocalError\<close> of the
  final \<open>get_price(reply)\<close>, not the upstream error.
\<close>

theorem deepseek_api_rag_all_fail:
  "deepseek_api_rag fmt test_prompt encode
       (\<lambda>vs n. \<lparr>res_documents = [[]], res_metadatas = [[]]\<rparr>)
       (\<lambda>w msgs. (Inl ''overloaded'', w)) w it
     = (Inl (UnboundLocalError ''reply''), w,
        replicate 8 (messages_for fmt test_prompt it [] []),
        replicate 8 ''Error: overloaded'')"
  by (simp add: deepseek_api_rag_def find_similars_def retry_loop_all_fail)

subsection \<open>Data curation\<close>

lemma items_loop_step:
  "items_loop pf I inc (d # ds) acc =
     (case raw_price d of
        None \<Rightarrow> Inl TypeError
      | Some s \<Rightarrow> items_loop pf I inc ds
                   (acc @ (case curated_item pf I inc d of None \<Rightarrow> [] | Some x \<Rightarrow> [x])))"
proof (cases "raw_price d")
  case None
  then show ?thesis by simp
next
  case (Some s)
  show ?thesis
  proof (cases "pf s")
    case None
    with Some show ?thesis by (simp add: curated_item_def curated_price_def)
  next
    case p: (Some p)
    show ?thesis
      using Some p by (cases p) (simp_all add: curated_item_def curated_price_def)
  qed
qed

lemma items_loop_map_filter:
  "items_loop pf I inc ds acc = Inr its \<Longrightarrow>
     its = acc @ List.map_filter (curated_item pf I inc) ds"
proof (induction ds arbitrary: acc)
  case Nil
  then show ?case by (simp add: List.map_filter_simps)
next
  case (Cons d ds)
  from Cons.prems obtain s where s: "raw_price d = Some s"
    by (cases "raw_price d") (simp_all add: items_loop_step del: items_loop.simps)
  with Cons.prems
  have "items_loop pf I inc ds
          (acc @ (case curated_item pf I inc d of None \<Rightarrow> [] | Some x \<Rightarrow> [x])) = Inr its"
    by (simp add: items_loop_step del: items_loop.simps)
  from Cons.IH [OF this] show ?case
    by (simp add: List.map_filter_simps split: option.splits)
qed

lemma items_loop_total:
  "\<forall>d \<in> set ds. raw_price d \<noteq> None \<Longrightarrow> \<exists>its. items_loop pf I inc ds acc = Inr its"
proof (induction ds arbitrary: acc)
  case Nil
  show ?case by simp
next
  case (Cons d ds)
  then show ?case
    by (auto simp: items_loop_step simp del: items_loop.simps)
qed

lemma curated_price_Some:
  "curated_price pf d = Some p \<longleftrightarrow>
     (\<exists>s. raw_price d = Some s \<and> pf s = Some (Finite p) \<and> 1 \<le> p \<and> p \<le> 999)"
  by (auto simp: curated_price_def split: option.splits pyfloat.splits if_splits)

text \<open>
  Claim C4. If the curation loop finishes, the curated items are exactly the items of the
  records whose price field converts to a number between 1 and 999 (and which the
  \<open>Item\<close> class includes), in the order of the dataset: a record whose price does not
  convert, or converts to a number outside the interval (or to NaN or an infinity),
  contributes nothing, and every curated item comes from a record with a numeric price
  in the interval. The loop finishes whenever every price field holds a string.
\<close>

theorem items_only_curated_prices:
  "(items pf I inc ds = Inr its \<longrightarrow>
      its = List.map_filter (curated_item pf I inc) ds
      \<and> (\<forall>x \<in> set its. \<exists>d \<in> set ds. \<exists>s p.
             raw_price d = Some s \<and> pf s = Some (Finite p) \<and> 1 \<le> p \<and> p \<le> 999
             \<and> inc (I d (Finite p)) \<and> x = I d (Finite p)))
   \<and> ((\<forall>d \<in> set ds. raw_price d \<noteq> None) \<longrightarrow> (\<exists>its'. items pf I inc ds = Inr its'))"
proof (intro conjI impI)
  assume a: "items pf I inc ds = Inr its"
  then show eq: "its = List.map_filter (curated_item pf I inc) ds"
    using items_loop_map_filter [of pf I inc ds "[]" its] by (simp add: items_def)
  show "\<forall>x \<in> set its. \<exists>d \<in> set ds. \<exists>s p.
             raw_price d = Some s \<and> pf s = Some (Finite p) \<and> 1 \<le> p \<and> p \<le> 999
             \<and> inc (I d (Finite p)) \<and> x = I d (Finite p)"
  proof
    fix x assume "x \<in> set its"
    with eq obtain d where d: "d \<in> set ds" and fx: "curated_item pf I inc d = Some x"
      by (auto simp: List.map_filter_def)
    from fx obtain p where p: "curated_price pf d = Some p" "inc (I d (Finite p))" "x = I d (Finite p)"
      by (auto simp: curated_item_def split: option.splits if_splits)
    from p(1) obtain s where "raw_price d = Some s" "pf s = Some (Finite p)" "1 \<le> p" "p \<le> 999"
      by (auto simp: curated_price_Some)
    with d p show "\<exists>d \<in> set ds. \<exists>s p.
             raw_price d = Some s \<and> pf s = Some (Finite p) \<and> 1 \<le> p \<and> p \<le> 999
             \<and> inc (I d (Finite p)) \<and> x = I d (Finite p)"
      by blast
  qed
next
  assume "\<forall>d \<in> set ds. raw_price d \<noteq> None"
  then show "\<exists>its'. items pf I inc ds = Inr its'"
    using items_loop_total [of ds pf I inc "[]"] by (simp add: items_def)
qed

theorem items_only_curated_prices_witness:
  "items (\<lambda>s. if s = ''12.5'' then Some (Finite (25 / 2))
               else if s = ''2000'' then Some (Finite 2000)
               else if s = ''nan'' then Some NaN else None)
         (\<lambda>d p. (raw_price d, p)) (\<lambda>x. True)
         [\<lparr>raw_price = Some ''12.5''\<rparr>, \<lparr>raw_price = Some ''None''\<rparr>,
          \<lparr>raw_price = Some ''2000''\<rparr>, \<lparr>raw_price = Some ''nan''\<rparr>]
     = Inr [(Some ''12.5'', Finite (25 / 2))]
   \<and> (\<exists>d \<in> set [\<lparr>raw_price = Some ''12.5''\<rparr>, \<lparr>raw_price = Some ''None''\<rparr>,
          \<lparr>raw_price = Some ''2000''\<rparr>, \<lparr>raw_price = Some ''nan''\<rparr>].
         \<exists>s p. raw_price d = Some s \<and> 1 \<le> p \<and> p \<le> 999
           \<and> (Some ''12.5'', Finite (25 / 2)) = (raw_price d, Finite p))"
proof -
  let ?pf = "\<lambda>s. if s = ''12.5'' then Some (Finite (25 / 2))
               else if s = ''2000'' then Some (Finite 2000)
               else if s = ''nan'' then Some NaN else None"
  let ?ds = "[\<lparr>raw_price = Some ''12.5''\<rparr>, \<lparr>raw_price = Some ''None''\<rparr>,
          \<lparr>raw_price = Some ''2000''\<rparr>, \<lparr>raw_price = Some ''nan''\<rparr>]"
  have e: "items ?pf (\<lambda>d p. (raw_price d, p)) (\<lambda>x. True) ?ds = Inr [(Some ''12.5'', Finite (25 / 2))]"
    by (simp add: items_def)
  from items_only_curated_prices [of ?pf "\<lambda>d p. (raw_price d, p)" "\<lambda>x. True" ?ds
      "[(Some ''12.5'', Finite (25 / 2))]"] e
  have "\<forall>x \<in> set [(Some ''12.5'', Finite (25 / 2))]. \<exists>d \<in> set ?ds. \<exists>s p.
             raw_price d = Some s \<and> ?pf s = Some (Finite p) \<and> 1 \<le> p \<and> p \<le> 999
             \<and> True \<and> x = (raw_price d, Finite p)"
    by blast
  then show ?thesis using e by auto
qed

subsection \<open>Retrieval and the train/test split\<close>

lemma price_column_Inr:
  "price_column ms = Inr ps \<Longrightarrow>
     length ps = length ms \<and> (\<forall>i < length ms. (ms ! i) ''price'' = Some (ps ! i))"
proof (induction ms arbitrary: ps)
  case Nil
  then show ?case by simp
next
  case (Cons m ms)
  from Cons.prems obtain p ps' where p: "m ''price'' = Some p" "price_column ms = Inr ps'"
    "ps = p # ps'"
    by (auto split: option.splits sum.splits)
  from Cons.IH [OF p(2)] show ?case
    using p by (auto simp: nth_Cons split: nat.splits)
qed

lemma price_column_total:
  "\<forall>m \<in> set ms. m ''price'' \<noteq> None \<Longrightarrow> \<exists>ps. price_column ms = Inr ps"
  by (induction ms) auto

lemma find_similars_Inr:
  assumes "find_similars encode query it = Inr (docs, prices)"
  shows "\<exists>rest_d ms rest_m.
           res_documents (query (encode [description it]) 5) = docs # rest_d
         \<and> res_metadatas (query (encode [description it]) 5) = ms # rest_m
         \<and> length prices = length ms
         \<and> (\<forall>i < length ms. (ms ! i) ''price'' = Some (prices ! i))"
proof -
  from assms obtain ds rest_d where d: "res_documents (query (encode [description it]) 5) = ds # rest_d"
    by (auto simp: find_similars_def Let_def split: list.splits)
  from assms d obtain ms rest_m where m: "res_metadatas (query (encode [description it]) 5) = ms # rest_m"
    by (auto simp: find_similars_def Let_def split: list.splits)
  from assms d m have pc: "price_column ms = Inr prices" and docs: "docs = ds"
    by (auto simp: find_similars_def Let_def split: sum.splits)
  from price_column_Inr [OF pc] d m docs show ?thesis by auto
qed

text \<open>
  Claim C10. \<open>find_similars\<close> asks the store for 5 results for the one query vector of
  the item. The store answering for that query with a ranked list of documents and a
  ranked list of as many metadata entries, each with a price (entry \<open>i\<close> of both lists
  describing the \<open>i\<close>-th hit), \<open>find_similars\<close> returns the documents in the store's
  order and a list of prices of the same length, \<open>prices[i]\<close> being the value under
  \<open>'price'\<close> of the metadata of \<open>documents[i]\<close>.
\<close>

theorem find_similars_returns_parallel:
  assumes docs: "res_documents (query (encode [description it]) 5) = ds # rest_d"
    and metas: "res_metadatas (query (encode [description it]) 5) = ms # rest_m"
    and aligned: "length ms = length ds"
    and priced: "\<forall>m \<in> set ms. m ''price'' \<noteq> None"
  shows "\<exists>prices. find_similars encode query it = Inr (ds, prices)
           \<and> length prices = length ds
           \<and> (\<forall>i < length ds. (ms ! i) ''price'' = Some (prices ! i))"
proof -
  from price_column_total [OF priced] obtain prices where pc: "price_column ms = Inr prices"
    by blast
  from price_column_Inr [OF pc] aligned
  have "length prices = length ds" "\<forall>i < length ds. (ms ! i) ''price'' = Some (prices ! i)"
    by simp_all
  moreover have "find_similars encode query it = Inr (ds, prices)"
    using docs metas pc by (simp add: find_similars_def)
  ultimately show ?thesis by blast
qed

theorem find_similars_returns_parallel_witness:
  "find_similars id
      (\<lambda>vs n. \<lparr>res_documents = [take n [''mic A'', ''mic B'', ''mic C'']],
                res_metadatas = [take n [[''price'' \<mapsto> (139::rat)], [''price'' \<mapsto> 99],
                                         [''price'' \<mapsto> 45]]]\<rparr>)
      \<lparr>prompt = ''a mic'', price = 100, category = ''Electronics''\<rparr>
    = Inr ([''mic A'', ''mic B'', ''mic C''], [139, 99, 45])"
proof -
  let ?q = "\<lambda>(vs :: string list) n. \<lparr>res_documents = [take n [''mic A'', ''mic B'', ''mic C'']],
                res_metadatas = [take n [[''price'' \<mapsto> (139::rat)], [''price'' \<mapsto> 99],
                                         [''price'' \<mapsto> 45]]]\<rparr>"
  let ?it = "\<lparr>prompt = ''a mic'', price = 100, category = ''Electronics''\<rparr>"
  let ?ms = "[[''price'' \<mapsto> (139::rat)], [''price'' \<mapsto> 99], [''price'' \<mapsto> 45]]"
  have d: "res_documents (?q (id [description ?it]) 5) = [''mic A'', ''mic B'', ''mic C''] # []"
    by simp
  have m: "res_metadatas (?q (id [description ?it]) 5) = ?ms # []"
    by simp
  have a: "length ?ms = length [''mic A'', ''mic B'', ''mic C'']" by simp
  have p: "\<forall>m \<in> set ?ms. m ''price'' \<noteq> None" by simp
  from find_similars_returns_parallel [of ?q id ?it, OF d m a p]
  obtain prices where r: "find_similars id ?q ?it = Inr ([''mic A'', ''mic B'', ''mic C''], prices)"
    and l: "length prices = length [''mic A'', ''mic B'', ''mic C'']"
    and v: "\<forall>i < length [''mic A'', ''mic B'', ''mic C'']. (?ms ! i) ''price'' = Some (prices ! i)"
    by blast
  from v have "prices ! 0 = 139" "prices ! 1 = 99" "prices ! 2 = 45"
    by (auto dest: spec [of _ 0] spec [of _ 1] spec [of _ 2])
  with l have "prices = [139, 99, 45]"
    by (auto simp: list_eq_iff_nth_eq less_Suc_eq numeral_3_eq_3 numeral_2_eq_2)
  with r show ?thesis by simp
qed

text \<open>
  Claim C8. The split re-seeds the generator with 42 before shuffling, so its result does
  not depend on the state the generator was in: two runs on the same sample give the
  same shuffled order, the same train set and the same test set. Train is the first
  400,000 elements of the shuffled sample and test the next 2,000; together they are its
  first 402,000 elements, and when the shuffle permutes a sample without repeated items
  no item is in both.
\<close>

theorem train_test_split_deterministic:
  "train_test_split seed shuffle r0 smp = train_test_split seed shuffle r0' smp
   \<and> (case train_test_split seed shuffle r0 smp of
        ((train, test), shuffled, r) \<Rightarrow>
          shuffled = fst (shuffle (seed 42) smp)
        \<and> train = take 400000 shuffled
        \<and> test = take 2000 (drop 400000 shuffled)
        \<and> train @ test = take 402000 shuffled
        \<and> (mset shuffled = mset smp \<and> distinct smp \<longrightarrow> set train \<inter> set test = {}))"
proof -
  obtain shuffled r where sh: "shuffle (seed 42) smp = (shuffled, r)"
    by (cases "shuffle (seed 42) smp")
  have split: "train_test_split seed shuffle q smp
      = ((take 400000 shuffled, take 2000 (drop 400000 shuffled)), shuffled, r)" for q
    by (simp add: train_test_split_def sh)
  have app: "take 400000 shuffled @ take 2000 (drop 400000 shuffled) = take 402000 shuffled"
    using take_add [of 400000 2000 shuffled] by simp
  have disj: "set (take 400000 shuffled) \<inter> set (take 2000 (drop 400000 shuffled)) = {}"
    if "mset shuffled = mset smp" "distinct smp"
  proof -
    from that have "distinct shuffled" by (metis mset_eq_imp_distinct_iff)
    then have "set (take 400000 shuffled) \<inter> set (drop 400000 shuffled) = {}"
      by (rule set_take_disj_set_drop_if_distinct) simp
    moreover have "set (take 2000 (drop 400000 shuffled)) \<subseteq> set (drop 400000 shuffled)"
      by (rule set_take_subset)
    ultimately show ?thesis by blast
  qed
  show ?thesis
    using app disj by (simp add: split sh)
qed

theorem train_test_split_deterministic_witness:
  "train_test_split (\<lambda>n. n) (\<lambda>r xs. (rev xs, Suc r)) 7 [4, 5, 6 :: nat]
     = (([6, 5, 4], []), [6, 5, 4], 43)
   \<and> train_test_split (\<lambda>n. n) (\<lambda>r xs. (rev xs, Suc r)) 0 [4, 5, 6 :: nat]
     = (([6, 5, 4], []), [6, 5, 4], 43)
   \<and> mset [6, 5, 4] = mset [4, 5, 6 :: nat] \<and> distinct [4, 5, 6 :: nat]
   \<and> set [6, 5, 4 :: nat] \<inter> set [] = {}"
proof -
  have e: "train_test_split (\<lambda>n. n) (\<lambda>r xs. (rev xs, Suc r)) q [4, 5, 6 :: nat]
     = (([6, 5, 4], []), [6, 5, 4], 43)" for q
    by (simp add: train_test_split_def)
  from train_test_split_deterministic [of "\<lambda>n. n" "\<lambda>r xs. (rev xs, Suc r)" 7 "[4, 5, 6 :: nat]" 0]
  show ?thesis by (simp add: e)
qed

subsection \<open>The request sent to the model\<close>

lemma foldl_append_concat: "foldl (\<lambda>m x. m @ f x) a xs = a @ concat (map f xs)"
  by (induction xs arbitrary: a) simp_all

lemma make_context_concat:
  "make_context fmt similars prices =
     ''To provide some context, here are some other items that might be similar to the item you need to estimate.\<newline>\<newline>''
     @ concat (map (\<lambda>(similar, p). ''Potentially related product:\<newline>'' @ similar
                      @ ''\<newline>Price is $'' @ fmt p @ ''\<newline>\<newline>'')
                 (zip similars prices))"
proof -
  have "(\<lambda>message (similar, price).
           message @ ''Potentially related product:\<newline>'' @ similar
             @ ''\<newline>Price is $'' @ fmt price @ ''\<newline>\<newline>'')
      = (\<lambda>m x. m @ (\<lambda>(similar, p). ''Potentially related product:\<newline>'' @ similar
                      @ ''\<newline>Price is $'' @ fmt p @ ''\<newline>\<newline>'') x)"
    by (auto simp: fun_eq_iff)
  then show ?thesis
    unfolding make_context_def by (simp only: foldl_append_concat)
qed

lemma replace_from_skip: "replace_from old new k s = replace_from old new 0 (drop k s)"
proof (induction s arbitrary: k)
  case Nil
  show ?case by simp
next
  case (Cons c cs)
  show ?case
  proof (cases k)
    case 0
    then show ?thesis by simp
  next
    case (Suc j)
    with Cons [of j] show ?thesis by simp
  qed
qed

lemma replace_from_self: "pat \<noteq> [] \<Longrightarrow> replace_from pat [] 0 pat = []"
proof (cases pat)
  case Nil
  assume "pat \<noteq> []"
  with Nil show ?thesis by simp
next
  case (Cons c cs)
  have "replace_from pat [] (length pat - 1) cs = replace_from pat [] 0 (drop (length pat - 1) cs)"
    by (rule replace_from_skip)
  then show ?thesis using Cons by simp
qed

lemma prefix_nth: "prefix xs ys \<Longrightarrow> i < length xs \<Longrightarrow> ys ! i = xs ! i"
  by (auto simp: prefix_def nth_append)

lemma no_straddle:
  assumes z: "z \<notin> set p" and ns: "\<not> sublist (p @ [z]) body" and ne: "body \<noteq> []"
  shows "\<not> prefix (p @ [z]) (body @ p @ [z])"
proof
  assume pre: "prefix (p @ [z]) (body @ p @ [z])"
  show False
  proof (cases "length (p @ [z]) \<le> length body")
    case True
    from pre obtain r where r: "body @ p @ [z] = (p @ [z]) @ r" by (auto simp: prefix_def)
    then have "take (length (p @ [z])) (body @ p @ [z]) = p @ [z]" by simp
    with True have "take (length (p @ [z])) body = p @ [z]" by simp
    then have "prefix (p @ [z]) body" by (metis take_is_prefix)
    then have "sublist (p @ [z]) body" by (rule prefix_imp_sublist)
    with ns show False by contradiction
  next
    case False
    then have lt: "length body \<le> length p" by simp
    from ne have pos: "0 < length body" by simp
    have "(body @ p @ [z]) ! length p = (p @ [z]) ! length p"
      by (rule prefix_nth [OF pre]) simp
    then have "(body @ p @ [z]) ! length p = z" by simp
    moreover have "(body @ p @ [z]) ! length p = (p @ [z]) ! (length p - length body)"
      using lt by (simp add: nth_append)
    moreover have idx: "length p - length body < length p"
      using pos lt by arith
    moreover have "(p @ [z]) ! (length p - length body) = p ! (length p - length body)"
      using idx by (simp add: nth_append)
    moreover have "p ! (length p - length body) \<in> set p"
      using idx by (rule nth_mem)
    ultimately show False using z by simp
  qed
qed

lemma replace_from_strip:
  assumes z: "z \<notin> set p"
  shows "\<not> sublist (p @ [z]) body \<Longrightarrow> replace_from (p @ [z]) [] 0 (body @ p @ [z]) = body"
proof (induction body)
  case Nil
  show ?case using replace_from_self [of "p @ [z]"] by simp
next
  case (Cons c cs)
  from Cons.prems have "\<not> sublist (p @ [z]) cs"
    by (meson sublist_Cons_right)
  then have ih: "replace_from (p @ [z]) [] 0 (cs @ p @ [z]) = cs" by (rule Cons.IH)
  from no_straddle [OF z Cons.prems] have "\<not> prefix (p @ [z]) ((c # cs) @ p @ [z])" by simp
  then show ?case using ih by simp
qed

lemma replace_strip_suffix:
  "\<not> sublist ''\<newline>\<newline>Price is $'' body \<Longrightarrow>
     replace (body @ ''\<newline>\<newline>Price is $'') ''\<newline>\<newline>Price is $'' [] = body"
  using replace_from_strip [of "CHR ''$''" "''\<newline>\<newline>Price is ''" body]
  by (simp add: replace_def)

text \<open>
  Claim C6, as amended. \<open>messages_for\<close> returns exactly three messages: the fixed system
  instruction; a user message whose content is the context block of \<open>make_context\<close>
  (the heading, then one entry per retrieved pair, in order, with the similar item's text
  and its price), then the line "And now the question for you:", then the test prompt
  with " to the nearest dollar" and the price suffix removed; and the assistant priming
  message "Price is $". The suffix is stripped from the test prompt: if the test prompt,
  once " to the nearest dollar" is removed, is a body without the suffix followed by the
  suffix, the text appended is exactly that body. The user content as a whole is not
  promised to be free of the suffix.
\<close>

theorem messages_for_shape:
  "messages_for fmt test_prompt it similars prices =
     [\<lparr>role = ''system'',
       content = ''You estimate prices of items. Reply only with the price, no explanation''\<rparr>,
      \<lparr>role = ''user'',
       content = make_context fmt similars prices @ ''And now the question for you:\<newline>\<newline>''
                 @ replace (replace (test_prompt it) '' to the nearest dollar'' [])
                     ''\<newline>\<newline>Price is $'' []\<rparr>,
      \<lparr>role = ''assistant'', content = ''Price is $''\<rparr>]
   \<and> make_context fmt similars prices =
       ''To provide some context, here are some other items that might be similar to the item you need to estimate.\<newline>\<newline>''
       @ concat (map (\<lambda>(similar, p). ''Potentially related product:\<newline>'' @ similar
                        @ ''\<newline>Price is $'' @ fmt p @ ''\<newline>\<newline>'')
                   (zip similars prices))
   \<and> (replace (test_prompt it) '' to the nearest dollar'' [] = body @ ''\<newline>\<newline>Price is $''
        \<and> \<not> sublist ''\<newline>\<newline>Price is $'' body
      \<longrightarrow> replace (replace (test_prompt it) '' to the nearest dollar'' [])
            ''\<newline>\<newline>Price is $'' [] = body)"
proof (intro conjI impI)
  show "messages_for fmt test_prompt it similars prices =
     [\<lparr>role = ''system'',
       content = ''You estimate prices of items. Reply only with the price, no explanation''\<rparr>,
      \<lparr>role = ''user'',
       content = make_context fmt similars prices @ ''And now the question for you:\<newline>\<newline>''
                 @ replace (replace (test_prompt it) '' to the nearest dollar'' [])
                     ''\<newline>\<newline>Price is $'' []\<rparr>,
      \<lparr>role = ''assistant'', content = ''Price is $''\<rparr>]"
    by (simp add: messages_for_def Let_def)
  show "make_context fmt similars prices =
       ''To provide some context, here are some other items that might be similar to the item you need to estimate.\<newline>\<newline>''
       @ concat (map (\<lambda>(similar, p). ''Potentially related product:\<newline>'' @ similar
                        @ ''\<newline>Price is $'' @ fmt p @ ''\<newline>\<newline>'')
                   (zip similars prices))"
    by (rule make_context_concat)
next
  assume a: "replace (test_prompt it) '' to the nearest dollar'' [] = body @ ''\<newline>\<newline>Price is $''
        \<and> \<not> sublist ''\<newline>\<newline>Price is $'' body"
  then show "replace (replace (test_prompt it) '' to the nearest dollar'' [])
            ''\<newline>\<newline>Price is $'' [] = body"
    using replace_strip_suffix [of body] by simp
qed

text \<open>
  The claim as stated fails: every context entry puts a line "Price is $..." after
  the similar item's text, so a retrieved text ending in a newline makes the user
  content contain the price suffix.
\<close>

theorem messages_for_suffix_counterexample:
  "sublist ''\<newline>\<newline>Price is $''
     (content (messages_for id id
        ''How much does this cost to the nearest dollar?\<newline>\<newline>A lamp\<newline>\<newline>Price is $''
        [''A desk\<newline>''] [''9.99''] ! 1))"
  by code_simp

theorem messages_for_shape_witness:
  "replace ''How much does this cost to the nearest dollar?\<newline>\<newline>A lamp\<newline>\<newline>Price is $''
       '' to the nearest dollar'' []
     = ''How much does this cost?\<newline>\<newline>A lamp'' @ ''\<newline>\<newline>Price is $''
   \<and> \<not> sublist ''\<newline>\<newline>Price is $'' ''How much does this cost?\<newline>\<newline>A lamp''
   \<and> replace (replace ''How much does this cost to the nearest dollar?\<newline>\<newline>A lamp\<newline>\<newline>Price is $''
                 '' to the nearest dollar'' [])
         ''\<newline>\<newline>Price is $'' []
     = ''How much does this cost?\<newline>\<newline>A lamp''"
proof -
  have r: "replace ''How much does this cost to the nearest dollar?\<newline>\<newline>A lamp\<newline>\<newline>Price is $''
       '' to the nearest dollar'' []
     = ''How much does this cost?\<newline>\<newline>A lamp'' @ ''\<newline>\<newline>Price is $''"
    by code_simp
  have n: "\<not> sublist ''\<newline>\<newline>Price is $'' ''How much does this cost?\<newline>\<newline>A lamp''"
    by code_simp
  from messages_for_shape [of id id
      "''How much does this cost to the nearest dollar?\<newline>\<newline>A lamp\<newline>\<newline>Price is $''"
      "[]" "[] :: string list" "''How much does this cost?\<newline>\<newline>A lamp''"] r n
  show ?thesis unfolding id_apply by blast
qed

subsection \<open>The deal filter\<close>

lemma sublist_join: "x \<in> set xs \<Longrightarrow> sublist x (join sep xs)"
proof (induction sep xs rule: join.induct)
  case (1 sep)
  then show ?case by simp
next
  case (2 sep y)
  then show ?case by simp
next
  case (3 sep y z zs)
  show ?case
  proof (cases "x = y")
    case True
    have "sublist y ([] @ y @ (sep @ join sep (z # zs)))" by (rule sublist_appendI)
    with True show ?thesis by simp
  next
    case False
    with 3 have "sublist x (join sep (z # zs))" by simp
    then have "sublist x ((y @ sep) @ join sep (z # zs))" by (simp only: sublist_append simp_thms)
    then show ?thesis by simp
  qed
qed

lemma user_prompt_lists_deal:
  "d \<in> set scraped \<Longrightarrow> sublist (describe d) (user_prompt describe scraped)"
proof -
  assume "d \<in> set scraped"
  then have "describe d \<in> set (map describe scraped)" by simp
  then have "sublist (describe d) (join ''\<newline>\<newline>'' (map describe scraped))"
    by (rule sublist_join)
  then show ?thesis
    unfolding user_prompt_def by (simp only: sublist_append simp_thms)
qed

lemma system_prompt_asks_five:
  \<open>sublist ''the 5 most detailed deals'' system_prompt\<close>
proof -
  have \<open>system_prompt = ''You identify and summarize ''
      @ ''the 5 most detailed deals''
      @ '' from a list, by selecting deals that have the most detailed, high quality description and the most clear price.\<newline>Respond strictly in JSON with no explanation, using this format. You should provide the price as a number derived from the description. If the price of a deal isn't clear, do not include that deal in your response.\<newline>Most important is that you respond with the 5 deals that have the most detailed product description with price. It's not important to mention the terms of the deal; most important is a thorough description of the product.\<newline>Be careful with products that are described as "$XXX off" or "reduced by $XXX" - this isn't the actual price of the product. Only respond with products when you are highly confident about the price. \<newline>\<newline>{"deals": [\<newline>    {\<newline>        "product_description": "Your clearly expressed summary of the product in 4-5 sentences. Details of the item are much more important than why it's a good deal. Avoid mentioning discounts and coupons; focus on the item itself. There should be a paragpraph of text for each item you choose.",\<newline>        "price": 99.99,\<newline>        "url": "the url as provided"\<newline>    },\<newline>    ...\<newline>]}''\<close>
    by (simp add: system_prompt_def)
  then show ?thesis
    by (metis sublist_appendI)
qed

lemma system_prompt_unclear_price:
  \<open>sublist ''If the price of a deal isn't clear, do not include that deal in your response.'' system_prompt\<close>
proof -
  have \<open>system_prompt = ''You identify and summarize the 5 most detailed deals from a list, by selecting deals that have the most detailed, high quality description and the most clear price.\<newline>Respond strictly in JSON with no explanation, using this format. You should provide the price as a number derived from the description. ''
      @ ''If the price of a deal isn't clear, do not include that deal in your response.''
      @ ''\<newline>Most important is that you respond with the 5 deals that have the most detailed product description with price. It's not important to mention the terms of the deal; most important is a thorough description of the product.\<newline>Be careful with products that are described as "$XXX off" or "reduced by $XXX" - this isn't the actual price of the product. Only respond with products when you are highly confident about the price. \<newline>\<newline>{"deals": [\<newline>    {\<newline>        "product_description": "Your clearly expressed summary of the product in 4-5 sentences. Details of the item are much more important than why it's a good deal. Avoid mentioning discounts and coupons; focus on the item itself. There should be a paragpraph of text for each item you choose.",\<newline>        "price": 99.99,\<newline>        "url": "the url as provided"\<newline>    },\<newline>    ...\<newline>]}''\<close>
    by (simp add: system_prompt_def)
  then show ?thesis
    by (metis sublist_appendI)
qed

lemma system_prompt_discount:
  \<open>sublist ''Be careful with products that are described as "$XXX off" or "reduced by $XXX" - this isn't the actual price of the product.'' system_prompt\<close>
proof -
  have \<open>system_prompt = ''You identify and summarize the 5 most detailed deals from a list, by selecting deals that have the most detailed, high quality description and the most clear price.\<newline>Respond strictly in JSON with no explanation, using this format. You should provide the price as a number derived from the description. If the price of a deal isn't clear, do not include that deal in your response.\<newline>Most important is that you respond with the 5 deals that have the most detailed product description with price. It's not important to mention the terms of the deal; most important is a thorough description of the product.\<newline>''
      @ ''Be careful with products that are described as "$XXX off" or "reduced by $XXX" - this isn't the actual price of the product.''
      @ '' Only respond with products when you are highly confident about the price. \<newline>\<newline>{"deals": [\<newline>    {\<newline>        "product_description": "Your clearly expressed summary of the product in 4-5 sentences. Details of the item are much more important than why it's a good deal. Avoid mentioning discounts and coupons; focus on the item itself. There should be a paragpraph of text for each item you choose.",\<newline>        "price": 99.99,\<newline>        "url": "the url as provided"\<newline>    },\<newline>    ...\<newline>]}''\<close>
    by (simp add: system_prompt_def)
  then show ?thesis
    by (metis sublist_appendI)
qed

text \<open>
  Claim C9, as amended. For every batch of scraped deals, \<open>get_recommendations\<close> sends the
  model the system prompt, which asks for the 5 most detailed deals, tells it not to
  include a deal whose price isn't clear and warns that "$XXX off" or "reduced by $XXX"
  is not the actual price, and a user prompt that lists every scraped deal (the
  description of each is part of it); it returns the model's parsed reply as it is.
  The number of records and the price cues behind them are asked of the model, not
  enforced by the code.
\<close>

theorem get_recommendations_asks_and_returns:
  \<open>get_recommendations parse describe scraped
     = parse [\<lparr>role = ''system'', content = system_prompt\<rparr>,
              \<lparr>role = ''user'', content = user_prompt describe scraped\<rparr>]
   \<and> deals (get_recommendations parse describe scraped)
     = deals (parse [\<lparr>role = ''system'', content = system_prompt\<rparr>,
                     \<lparr>role = ''user'', content = user_prompt describe scraped\<rparr>])
   \<and> sublist ''the 5 most detailed deals'' system_prompt
   \<and> sublist ''If the price of a deal isn't clear, do not include that deal in your response.''
        system_prompt
   \<and> sublist ''Be careful with products that are described as "$XXX off" or "reduced by $XXX" - this isn't the actual price of the product.''
        system_prompt
   \<and> (\<forall>d \<in> set scraped. sublist (describe d) (user_prompt describe scraped))
   \<and> user_prompt describe scraped
     = user_prompt describe [] @ join ''\<newline>\<newline>'' (map describe scraped)\<close>
proof -
  have r: \<open>get_recommendations parse describe scraped
     = parse [\<lparr>role = ''system'', content = system_prompt\<rparr>,
              \<lparr>role = ''user'', content = user_prompt describe scraped\<rparr>]\<close>
    by (simp add: get_recommendations_def)
  have u: \<open>user_prompt describe scraped
     = user_prompt describe [] @ join ''\<newline>\<newline>'' (map describe scraped)\<close>
    by (simp add: user_prompt_def)
  show ?thesis
    using r u system_prompt_asks_five system_prompt_unclear_price system_prompt_discount
      user_prompt_lists_deal [of _ scraped describe]
    by (simp only: simp_thms) blast
qed

theorem get_recommendations_asks_and_returns_witness:
  "''Table saw, $20 off'' \<in> set [''Cordless drill for $99'', ''Table saw, $20 off'']
   \<and> sublist ''Table saw, $20 off''
        (user_prompt id [''Cordless drill for $99'', ''Table saw, $20 off''])
   \<and> length (deals (get_recommendations six_deals id
                        [''Cordless drill for $99'', ''Table saw, $20 off''])) = 6"
proof -
  from get_recommendations_asks_and_returns
         [of six_deals id "[''Cordless drill for $99'', ''Table saw, $20 off'']"]
  have a: "\<forall>d \<in> set [''Cordless drill for $99'', ''Table saw, $20 off''].
             sublist (id d) (user_prompt id [''Cordless drill for $99'', ''Table saw, $20 off''])"
    and b: "deals (get_recommendations six_deals id
                     [''Cordless drill for $99'', ''Table saw, $20 off''])
            = deals (six_deals [\<lparr>role = ''system'', content = system_prompt\<rparr>,
                \<lparr>role = ''user'',
                 content = user_prompt id [''Cordless drill for $99'', ''Table saw, $20 off'']\<rparr>])"
    by blast+
  from a have "sublist ''Table saw, $20 off''
        (user_prompt id [''Cordless drill for $99'', ''Table saw, $20 off''])"
    by simp
  moreover from b have "length (deals (get_recommendations six_deals id
                        [''Cordless drill for $99'', ''Table saw, $20 off''])) = 6"
    by (simp add: six_deals_def)
  ultimately show ?thesis by simp
qed

text \<open>
  The claim as stated fails: when the model replies with six deals, six deals are
  returned.
\<close>

theorem get_recommendations_six_counterexample:
  "\<not> length (deals (get_recommendations six_deals id [''Cordless drill, $20 off''])) \<le> 5"
  by (simp add: get_recommendations_def six_deals_def)

subsection \<open>The dataset balancer\<close>

lemma length_slot_weights: "length (slot_weights slot) = length slot"
  by (simp add: slot_weights_def Let_def)

lemma raw_weights_pos:
  "0 < sum_list (map (\<lambda>it. if category it = ''Automotive'' then 1 else (5::rat)) slot)"
  if "slot \<noteq> []"
  using that
proof (induction slot)
  case Nil
  then show ?case by simp
next
  case (Cons a slot)
  have "0 \<le> sum_list (map (\<lambda>it. if category it = ''Automotive'' then 1 else (5::rat)) slot)"
    by (rule sum_list_nonneg) auto
  then show ?case by (simp add: add_pos_nonneg)
qed

lemma sum_slot_weights: "slot \<noteq> [] \<Longrightarrow> sum_list (slot_weights slot) = 1"
proof -
  assume ne: "slot \<noteq> []"
  let ?w = "map (\<lambda>it. if category it = ''Automotive'' then 1 else (5::rat)) slot"
  have "sum_list (map (\<lambda>w. w / sum_list ?w) ?w) = sum_list ?w / sum_list ?w"
    by (simp only: divide_inverse sum_list_mult_const [symmetric] map_map comp_def)
  also have "\<dots> = 1" using raw_weights_pos [OF ne] by simp
  finally show ?thesis by (simp add: slot_weights_def Let_def)
qed

lemma slot_weights_pos: "\<forall>x \<in> set (slot_weights slot). 0 < x"
proof (cases "slot = []")
  case True
  then show ?thesis by (simp add: slot_weights_def)
next
  case False
  from raw_weights_pos [OF this] show ?thesis
    by (auto simp: slot_weights_def Let_def)
qed

lemma slot_weights_nth:
  "j < length slot \<Longrightarrow>
     slot_weights slot ! j
       = (if category (slot ! j) = ''Automotive'' then 1 else 5)
         / sum_list (map (\<lambda>it. if category it = ''Automotive'' then 1 else 5) slot)"
  by (simp add: slot_weights_def Let_def)

lemma slot_weights_ratio:
  "j < length slot \<Longrightarrow> k < length slot \<Longrightarrow> category (slot ! j) \<noteq> ''Automotive'' \<Longrightarrow>
     category (slot ! k) = ''Automotive'' \<Longrightarrow> slot_weights slot ! j = 5 * slot_weights slot ! k"
  by (simp add: slot_weights_nth)

lemma sample_loop_outcomes:
  "sample_loop choice sl is g acc = Inr (out, g') \<Longrightarrow>
     \<exists>cs. out = acc @ concat cs \<and> list_all2 (slot_outcome choice sl) is cs"
proof (induction "is" arbitrary: g acc)
  case Nil
  then show ?case by simp
next
  case (Cons i rest)
  show ?case
  proof (cases "240 \<le> i \<or> length (sl i) \<le> 1200")
    case True
    with Cons.prems have "sample_loop choice sl rest g (acc @ sl i) = Inr (out, g')"
      by (auto simp: Let_def split: if_splits)
    from Cons.IH [OF this] obtain cs where cs: "out = (acc @ sl i) @ concat cs"
      "list_all2 (slot_outcome choice sl) rest cs" by blast
    have "slot_outcome choice sl i (sl i)" using True by (simp add: slot_outcome_def)
    with cs have "out = acc @ concat (sl i # cs) \<and> list_all2 (slot_outcome choice sl) (i # rest) (sl i # cs)"
      by simp
    then show ?thesis by blast
  next
    case False
    obtain sel g1 where ch: "choice g (length (sl i)) 1200 (slot_weights (sl i)) = (sel, g1)"
      by (cases "choice g (length (sl i)) 1200 (slot_weights (sl i))")
    from False ch Cons.prems have inr: "\<forall>j \<in> set sel. j < length (sl i)"
      by (auto simp: Let_def split: if_splits)
    with False ch Cons.prems
    have "sample_loop choice sl rest g1 (acc @ map (\<lambda>j. sl i ! j) sel) = Inr (out, g')"
      by (auto simp: Let_def split: if_splits)
    from Cons.IH [OF this] obtain cs where cs: "out = (acc @ map (\<lambda>j. sl i ! j) sel) @ concat cs"
      "list_all2 (slot_outcome choice sl) rest cs" by blast
    have "slot_outcome choice sl i (map (\<lambda>j. sl i ! j) sel)"
      using False inr ch unfolding slot_outcome_def
      by (auto intro!: exI [of _ g])
    with cs have "out = acc @ concat (map (\<lambda>j. sl i ! j) sel # cs)
        \<and> list_all2 (slot_outcome choice sl) (i # rest) (map (\<lambda>j. sl i ! j) sel # cs)"
      by simp
    then show ?thesis by blast
  qed
qed

lemma sample_loop_total:
  assumes "choice_contract choice"
  shows "\<exists>out g'. sample_loop choice sl is g acc = Inr (out, g')"
proof (induction "is" arbitrary: g acc)
  case Nil
  show ?case by simp
next
  case (Cons i rest)
  show ?case
  proof (cases "240 \<le> i \<or> length (sl i) \<le> 1200")
    case True
    then show ?thesis using Cons [of g "acc @ sl i"] by (auto simp: Let_def)
  next
    case False
    then have big: "1200 \<le> length (sl i)" and ne: "sl i \<noteq> []" by auto
    obtain sel g1 where ch: "choice g (length (sl i)) 1200 (slot_weights (sl i)) = (sel, g1)"
      by (cases "choice g (length (sl i)) 1200 (slot_weights (sl i))")
    have "\<forall>j \<in> set (fst (choice g (length (sl i)) 1200 (slot_weights (sl i)))). j < length (sl i)"
      using assms big length_slot_weights [of "sl i"] sum_slot_weights [OF ne]
        slot_weights_pos [of "sl i"]
      unfolding choice_contract_def by blast
    with ch have "\<forall>j \<in> set sel. j < length (sl i)" by simp
    with False ch show ?thesis
      using Cons [of g1 "acc @ map (\<lambda>j. sl i ! j) sel"] by (simp add: Let_def)
  qed
qed

lemma filter_concat_outcomes:
  assumes "list_all2 R is cs" and "\<And>k c. R k c \<Longrightarrow> \<forall>x \<in> set c. key x = k" and "distinct is"
  shows "(i \<notin> set is \<longrightarrow> filter (\<lambda>x. key x = i) (concat cs) = [])
       \<and> (i \<in> set is \<longrightarrow> (\<exists>c. R i c \<and> filter (\<lambda>x. key x = i) (concat cs) = c))"
  using assms(1,3)
proof (induction rule: list_all2_induct)
  case Nil
  show ?case by simp
next
  case (Cons k ks c cs)
  from Cons.prems have d: "distinct ks" and nk: "k \<notin> set ks" by simp_all
  from Cons.IH [OF d] have ih1: "i \<notin> set ks \<Longrightarrow> filter (\<lambda>x. key x = i) (concat cs) = []"
    and ih2: "i \<in> set ks \<Longrightarrow> \<exists>c. R i c \<and> filter (\<lambda>x. key x = i) (concat cs) = c"
    by simp_all
  have keys: "\<forall>x \<in> set c. key x = k" using assms(2) [OF Cons.hyps(1)] .
  show ?case
  proof (cases "i = k")
    case True
    from keys True have "filter (\<lambda>x. key x = i) c = c" by (simp add: filter_id_conv)
    moreover from True nk have "filter (\<lambda>x. key x = i) (concat cs) = []" using ih1 by simp
    ultimately show ?thesis using True Cons.hyps(1) by auto
  next
    case False
    from keys False have "filter (\<lambda>x. key x = i) c = []" by (auto simp: filter_empty_conv)
    then show ?thesis using False ih1 ih2 by auto
  qed
qed

lemma slot_outcome_keys:
  "slot_outcome choice (slots its) k c \<Longrightarrow> \<forall>x \<in> set c. py_round (price x) = k"
proof -
  assume "slot_outcome choice (slots its) k c"
  then have "set c \<subseteq> set (slots its k)"
    by (auto simp: slot_outcome_def split: if_splits)
  then show ?thesis by (auto simp: slots_def)
qed

lemma sample_slot_outcome:
  assumes "sample np_seed choice its = Inr (out, g')"
  shows "(1 \<le> i \<and> i \<le> 999 \<longrightarrow> slot_outcome choice (slots its) i (slots out i))
       \<and> (i < 1 \<or> 999 < i \<longrightarrow> slots out i = [])"
proof -
  from assms sample_loop_outcomes [of choice "slots its" "[1..999]" "np_seed 42" "[]" out g']
  obtain cs where cs: "out = concat cs" "list_all2 (slot_outcome choice (slots its)) [1..999] cs"
    by (auto simp: sample_def)
  have "distinct [1..999::int]" by simp
  from filter_concat_outcomes [where key = "\<lambda>x. py_round (price x)" and i = i,
      OF cs(2) slot_outcome_keys this]
  show ?thesis by (auto simp: slots_def cs(1))
qed


lemma first_indices_contract: "choice_contract first_indices"
  by (simp add: choice_contract_def first_indices_def)

text \<open>
  The slots of the loop's range \<open>range(1, 1000)\<close>: what the output holds for each price
  from 1 to 999, and nothing for any other rounded price.
\<close>

lemma sample_slots_in_range:
  assumes "choice_contract choice"
  shows "\<exists>out g'. sample np_seed choice its = Inr (out, g')
     \<and> (\<forall>i. (240 \<le> i \<and> i \<le> 999 \<longrightarrow> slots out i = slots its i)
          \<and> (1 \<le> i \<and> i < 240 \<and> length (slots its i) \<le> 1200 \<longrightarrow> slots out i = slots its i)
          \<and> (1 \<le> i \<and> i < 240 \<and> 1200 < length (slots its i) \<longrightarrow>
                length (slots out i) = 1200
              \<and> (\<exists>g. distinct (fst (choice g (length (slots its i)) 1200
                                     (slot_weights (slots its i))))
                   \<and> (\<forall>j \<in> set (fst (choice g (length (slots its i)) 1200
                                        (slot_weights (slots its i)))).
                         j < length (slots its i))
                   \<and> slots out i = map (\<lambda>j. slots its i ! j)
                                      (fst (choice g (length (slots its i)) 1200
                                              (slot_weights (slots its i)))))
              \<and> sum_list (slot_weights (slots its i)) = 1
              \<and> (\<forall>j k. j < length (slots its i) \<and> k < length (slots its i)
                     \<and> category (slots its i ! j) \<noteq> ''Automotive''
                     \<and> category (slots its i ! k) = ''Automotive''
                   \<longrightarrow> slot_weights (slots its i) ! j = 5 * slot_weights (slots its i) ! k))
          \<and> (i < 1 \<or> 999 < i \<longrightarrow> slots out i = [])
          \<and> (i < 240 \<longrightarrow> length (slots out i) \<le> 1200))"
proof -
  from sample_loop_total [OF assms, of "slots its" "[1..999]" "np_seed 42" "[]"]
  obtain out g' where res: "sample np_seed choice its = Inr (out, g')"
    by (auto simp: sample_def)
  have whole: "slots out i = slots its i"
    if "1 \<le> i" "i \<le> 999" "240 \<le> i \<or> length (slots its i) \<le> 1200" for i
    using sample_slot_outcome [OF res, of i] that by (simp add: slot_outcome_def)
  have outside: "slots out i = []" if "i < 1 \<or> 999 < i" for i
    using sample_slot_outcome [OF res, of i] that by simp
  have sampled: "length (slots out i) = 1200
       \<and> (\<exists>g. distinct (fst (choice g (length (slots its i)) 1200 (slot_weights (slots its i))))
             \<and> (\<forall>j \<in> set (fst (choice g (length (slots its i)) 1200
                                  (slot_weights (slots its i)))). j < length (slots its i))
             \<and> slots out i = map (\<lambda>j. slots its i ! j)
                   (fst (choice g (length (slots its i)) 1200 (slot_weights (slots its i)))))
       \<and> sum_list (slot_weights (slots its i)) = 1"
    if i: "1 \<le> i" "i < 240" "1200 < length (slots its i)" for i
  proof -
    from i have ne: "slots its i \<noteq> []" and big: "1200 \<le> length (slots its i)" by auto
    from i sample_slot_outcome [OF res, of i]
    obtain g where g: "\<forall>j \<in> set (fst (choice g (length (slots its i)) 1200
                                  (slot_weights (slots its i)))). j < length (slots its i)"
      "slots out i = map (\<lambda>j. slots its i ! j)
                   (fst (choice g (length (slots its i)) 1200 (slot_weights (slots its i))))"
      by (auto simp: slot_outcome_def)
    have c: "length (fst (choice g (length (slots its i)) 1200 (slot_weights (slots its i)))) = 1200
        \<and> distinct (fst (choice g (length (slots its i)) 1200 (slot_weights (slots its i))))"
      using assms big length_slot_weights [of "slots its i"] sum_slot_weights [OF ne]
        slot_weights_pos [of "slots its i"]
      unfolding choice_contract_def by blast
    from c g have "length (slots out i) = 1200" by simp
    with c g sum_slot_weights [OF ne] show ?thesis by blast
  qed
  have cap: "length (slots out i) \<le> 1200" if "i < 240" for i
  proof (cases "i < 1")
    case True
    then show ?thesis using outside [of i] by simp
  next
    case False
    show ?thesis
    proof (cases "length (slots its i) \<le> 1200")
      case True
      with False that whole [of i] show ?thesis by simp
    next
      case False
      with \<open>\<not> i < 1\<close> that sampled [of i] show ?thesis by simp
    qed
  qed
  have "(240 \<le> i \<and> i \<le> 999 \<longrightarrow> slots out i = slots its i)
          \<and> (1 \<le> i \<and> i < 240 \<and> length (slots its i) \<le> 1200 \<longrightarrow> slots out i = slots its i)
          \<and> (1 \<le> i \<and> i < 240 \<and> 1200 < length (slots its i) \<longrightarrow>
                length (slots out i) = 1200
              \<and> (\<exists>g. distinct (fst (choice g (length (slots its i)) 1200
                                     (slot_weights (slots its i))))
                   \<and> (\<forall>j \<in> set (fst (choice g (length (slots its i)) 1200
                                        (slot_weights (slots its i)))).
                         j < length (slots its i))
                   \<and> slots out i = map (\<lambda>j. slots its i ! j)
                                      (fst (choice g (length (slots its i)) 1200
                                              (slot_weights (slots its i)))))
              \<and> sum_list (slot_weights (slots its i)) = 1
              \<and> (\<forall>j k. j < length (slots its i) \<and> k < length (slots its i)
                     \<and> category (slots its i ! j) \<noteq> ''Automotive''
                     \<and> category (slots its i ! k) = ''Automotive''
                   \<longrightarrow> slot_weights (slots its i) ! j = 5 * slot_weights (slots its i) ! k))
          \<and> (i < 1 \<or> 999 < i \<longrightarrow> slots out i = [])
          \<and> (i < 240 \<longrightarrow> length (slots out i) \<le> 1200)" for i
  proof (intro conjI impI)
    show "slots out i = slots its i" if "240 \<le> i \<and> i \<le> 999"
      using that whole [of i] by simp
    show "slots out i = slots its i" if "1 \<le> i \<and> i < 240 \<and> length (slots its i) \<le> 1200"
      using that whole [of i] by simp
    show "slots out i = []" if "i < 1 \<or> 999 < i" using that by (rule outside)
    show "length (slots out i) \<le> 1200" if "i < 240" using that by (rule cap)
  next
    assume a: "1 \<le> i \<and> i < 240 \<and> 1200 < length (slots its i)"
    then show "length (slots out i) = 1200" using sampled [of i] by simp
    from a show "\<exists>g. distinct (fst (choice g (length (slots its i)) 1200
                                     (slot_weights (slots its i))))
                   \<and> (\<forall>j \<in> set (fst (choice g (length (slots its i)) 1200
                                        (slot_weights (slots its i)))).
                         j < length (slots its i))
                   \<and> slots out i = map (\<lambda>j. slots its i ! j)
                                      (fst (choice g (length (slots its i)) 1200
                                              (slot_weights (slots its i))))"
      using sampled [of i] by simp
    from a show "sum_list (slot_weights (slots its i)) = 1" using sampled [of i] by simp
    show "\<forall>j k. j < length (slots its i) \<and> k < length (slots its i)
                     \<and> category (slots its i ! j) \<noteq> ''Automotive''
                     \<and> category (slots its i ! k) = ''Automotive''
                   \<longrightarrow> slot_weights (slots its i) ! j = 5 * slot_weights (slots its i) ! k"
      using slot_weights_ratio [of _ "slots its i"] by blast
  qed
  with res show ?thesis by blast
qed

lemma py_round_5: "py_round 5 = 5"
  by (simp add: py_round_def Let_def)

lemma py_round_300: "py_round 300 = 300"
  by (simp add: py_round_def Let_def)

lemma py_round_range:
  assumes "1 \<le> x" and "x \<le> 999"
  shows "1 \<le> py_round x \<and> py_round x \<le> 999"
proof -
  have f1: "1 \<le> \<lfloor>x\<rfloor>" using assms(1) by (simp add: le_floor_iff)
  have f2: "\<lfloor>x\<rfloor> \<le> 999" using assms(2) by (simp add: floor_le_iff)
  have up: "\<lfloor>x\<rfloor> + 1 \<le> 999" if "1 / 2 \<le> x - of_int \<lfloor>x\<rfloor>"
  proof -
    from that assms(2) have "of_int \<lfloor>x\<rfloor> < (999::rat)" by linarith
    then have "\<lfloor>x\<rfloor> < 999" by (simp add: of_int_less_iff [symmetric] del: of_int_less_iff)
    then show ?thesis by simp
  qed
  show ?thesis
    using f1 f2 up by (auto simp: py_round_def Let_def)
qed

lemma slots_outside_range:
  assumes "\<forall>x \<in> set its. 1 \<le> price x \<and> price x \<le> 999" and "i < 1 \<or> 999 < i"
  shows "slots its i = []"
proof -
  have "py_round (price x) \<noteq> i" if "x \<in> set its" for x
    using py_round_range [of "price x"] assms that by auto
  then show ?thesis by (auto simp: slots_def filter_empty_conv)
qed

text \<open>
  Claim C3. The items are curated items, with prices from 1 to 999, and \<open>choice\<close> keeps
  numpy's contract. Then the balancing loop returns, and for every such input its output
  satisfies: every price slot with rounded price at or above 240 is retained in full;
  every slot below 240 with at most 1200 items is retained in full; every slot below 240
  with more than 1200 items contributes exactly 1200 items, those at the distinct indices
  one call of \<open>choice\<close> selected with the slot's weights, which sum to 1 and give a
  non-Automotive item 5 times the weight of an Automotive item. So no slot below 240
  exceeds 1200 items in the output.
\<close>

theorem sample_balanced:
  assumes "choice_contract choice"
    and "\<forall>x \<in> set its. 1 \<le> price x \<and> price x \<le> 999"
  shows "\<exists>out g'. sample np_seed choice its = Inr (out, g')
     \<and> (\<forall>i. (240 \<le> i \<longrightarrow> slots out i = slots its i)
          \<and> (i < 240 \<and> length (slots its i) \<le> 1200 \<longrightarrow> slots out i = slots its i)
          \<and> (i < 240 \<and> 1200 < length (slots its i) \<longrightarrow>
                length (slots out i) = 1200
              \<and> (\<exists>g. distinct (fst (choice g (length (slots its i)) 1200
                                     (slot_weights (slots its i))))
                   \<and> (\<forall>j \<in> set (fst (choice g (length (slots its i)) 1200
                                        (slot_weights (slots its i)))).
                         j < length (slots its i))
                   \<and> slots out i = map (\<lambda>j. slots its i ! j)
                                      (fst (choice g (length (slots its i)) 1200
                                              (slot_weights (slots its i)))))
              \<and> sum_list (slot_weights (slots its i)) = 1
              \<and> (\<forall>j k. j < length (slots its i) \<and> k < length (slots its i)
                     \<and> category (slots its i ! j) \<noteq> ''Automotive''
                     \<and> category (slots its i ! k) = ''Automotive''
                   \<longrightarrow> slot_weights (slots its i) ! j = 5 * slot_weights (slots its i) ! k))
          \<and> (i < 240 \<longrightarrow> length (slots out i) \<le> 1200))"
proof -
  from sample_slots_in_range [OF assms(1), of np_seed its]
  obtain out g' where res: "sample np_seed choice its = Inr (out, g')"
    and inr: "\<And>i. (240 \<le> i \<and> i \<le> 999 \<longrightarrow> slots out i = slots its i)
          \<and> (1 \<le> i \<and> i < 240 \<and> length (slots its i) \<le> 1200 \<longrightarrow> slots out i = slots its i)
          \<and> (1 \<le> i \<and> i < 240 \<and> 1200 < length (slots its i) \<longrightarrow>
                length (slots out i) = 1200
              \<and> (\<exists>g. distinct (fst (choice g (length (slots its i)) 1200
                                     (slot_weights (slots its i))))
                   \<and> (\<forall>j \<in> set (fst (choice g (length (slots its i)) 1200
                                        (slot_weights (slots its i)))).
                         j < length (slots its i))
                   \<and> slots out i = map (\<lambda>j. slots its i ! j)
                                      (fst (choice g (length (slots its i)) 1200
                                              (slot_weights (slots its i)))))
              \<and> sum_list (slot_weights (slots its i)) = 1
              \<and> (\<forall>j k. j < length (slots its i) \<and> k < length (slots its i)
                     \<and> category (slots its i ! j) \<noteq> ''Automotive''
                     \<and> category (slots its i ! k) = ''Automotive''
                   \<longrightarrow> slot_weights (slots its i) ! j = 5 * slot_weights (slots its i) ! k))
          \<and> (i < 1 \<or> 999 < i \<longrightarrow> slots out i = [])
          \<and> (i < 240 \<longrightarrow> length (slots out i) \<le> 1200)"
    by blast
  have "(240 \<le> i \<longrightarrow> slots out i = slots its i)
          \<and> (i < 240 \<and> length (slots its i) \<le> 1200 \<longrightarrow> slots out i = slots its i)
          \<and> (i < 240 \<and> 1200 < length (slots its i) \<longrightarrow>
                length (slots out i) = 1200
              \<and> (\<exists>g. distinct (fst (choice g (length (slots its i)) 1200
                                     (slot_weights (slots its i))))
                   \<and> (\<forall>j \<in> set (fst (choice g (length (slots its i)) 1200
                                        (slot_weights (slots its i)))).
                         j < length (slots its i))
                   \<and> slots out i = map (\<lambda>j. slots its i ! j)
                                      (fst (choice g (length (slots its i)) 1200
                                              (slot_weights (slots its i)))))
              \<and> sum_list (slot_weights (slots its i)) = 1
              \<and> (\<forall>j k. j < length (slots its i) \<and> k < length (slots its i)
                     \<and> category (slots its i ! j) \<noteq> ''Automotive''
                     \<and> category (slots its i ! k) = ''Automotive''
                   \<longrightarrow> slot_weights (slots its i) ! j = 5 * slot_weights (slots its i) ! k))
          \<and> (i < 240 \<longrightarrow> length (slots out i) \<le> 1200)" for i
  proof (cases "1 \<le> i \<and> i \<le> 999")
    case True
    with inr [of i] show ?thesis by simp
  next
    case False
    then have o: "i < 1 \<or> 999 < i" by auto
    from slots_outside_range [OF assms(2) o] have e: "slots its i = []" .
    from inr [of i] o have "slots out i = []" by simp
    with e show ?thesis by simp
  qed
  with res show ?thesis by blast
qed

theorem sample_balanced_witness:
  "choice_contract first_indices
   \<and> (\<exists>out g'. sample id first_indices
          (replicate 1201 \<lparr>prompt = ''Wiper'', price = 5, category = ''Automotive''\<rparr>
           @ [\<lparr>prompt = ''Drill'', price = 300, category = ''Tools''\<rparr>]) = Inr (out, g')
        \<and> length (slots out 5) = 1200
        \<and> slots out 300 = [\<lparr>prompt = ''Drill'', price = 300, category = ''Tools''\<rparr>])"
proof -
  let ?its = "replicate 1201 \<lparr>prompt = ''Wiper'', price = 5, category = ''Automotive''\<rparr>
           @ [\<lparr>prompt = ''Drill'', price = 300, category = ''Tools''\<rparr>]"
  have pr: "\<forall>x \<in> set ?its. 1 \<le> price x \<and> price x \<le> 999" by auto
  have s5: "slots ?its 5 = replicate 1201 \<lparr>prompt = ''Wiper'', price = 5, category = ''Automotive''\<rparr>"
    by (simp add: slots_def py_round_5 py_round_300)
  have s300: "slots ?its 300 = [\<lparr>prompt = ''Drill'', price = 300, category = ''Tools''\<rparr>]"
    by (simp add: slots_def py_round_5 py_round_300)
  from sample_balanced [OF first_indices_contract pr, of id]
  obtain out g' where res: "sample id first_indices ?its = Inr (out, g')"
    and a: "(5::int) < 240 \<and> 1200 < length (slots ?its 5) \<longrightarrow> length (slots out 5) = 1200"
    and b: "240 \<le> (300::int) \<longrightarrow> slots out 300 = slots ?its 300"
    by blast
  from a have "length (slots out 5) = 1200" by (simp add: s5)
  moreover from b have "slots out 300 = [\<lparr>prompt = ''Drill'', price = 300, category = ''Tools''\<rparr>]"
    by (simp add: s300)
  ultimately show ?thesis using res first_indices_contract by blast
qed

end
